theory Spec2Isabelle
  imports Main "HOL-Library.Code_Target_Nat"
begin

section \<open>Python values used by the rules\<close>

text \<open>
  The rules of \<^verbatim>\<open>rflint/rules/suiteRules.py\<close> work on Python strings, lists and
  integers. A Python 3 string is a sequence of Unicode code points and is modelled as a list
  of natural numbers; integers are \<^typ>\<open>int\<close>. The only exception the module can raise
  is \<^verbatim>\<open>IndexError\<close>, from indexing a sequence out of range.
\<close>

type_synonym pystr = "nat list"

text \<open>An ASCII literal of the source, as a Python string.\<close>

definition ascii :: "string \<Rightarrow> pystr" where
  "ascii s = map of_char s"

datatype error = IndexError

text \<open>\<^verbatim>\<open>xs[i]\<close>: negative indices count from the end, anything out of range raises.\<close>

definition list_get :: "'a list \<Rightarrow> int \<Rightarrow> error + 'a" where
  "list_get xs i =
     (if 0 \<le> i \<and> i < int (length xs) then Inr (xs ! nat i)
      else if i < 0 \<and> - int (length xs) \<le> i then Inr (xs ! nat (int (length xs) + i))
      else Inl IndexError)"

subsection \<open>The Unicode character database\<close>

text \<open>
  \<^verbatim>\<open>str.lower()\<close> and \<^verbatim>\<open>re.IGNORECASE\<close> read the interpreter's Unicode
  character database. The database is a parameter of the model: the full lowercase mapping
  of a code point (one to three code points), its simple lowercase and uppercase mappings,
  and the properties Cased and Case_Ignorable.
\<close>

record ucd =
  lower_full :: "nat \<Rightarrow> nat list"
  tolower :: "nat \<Rightarrow> nat"
  toupper :: "nat \<Rightarrow> nat"
  cased :: "nat \<Rightarrow> bool"
  case_ignorable :: "nat \<Rightarrow> bool"

text \<open>
  \<^verbatim>\<open>str.lower()\<close>, as CPython computes it: the code points are replaced from left to
  right by their full lowercase mapping, except the capital sigma U+03A3, which becomes the
  final sigma U+03C2 when it ends a word and the small sigma U+03C3 otherwise. It ends a
  word when the nearest code point before it that is not case-ignorable exists and is cased,
  and the nearest code point after it that is not case-ignorable does not exist or is not
  cased. The second argument of \<open>final_sigma\<close> and of \<open>lower_from\<close> is the text before
  the position, nearest code point first.
\<close>

definition final_sigma :: "ucd \<Rightarrow> pystr \<Rightarrow> pystr \<Rightarrow> bool" where
  "final_sigma U before after =
     ((case dropWhile (case_ignorable U) before of [] \<Rightarrow> False | c # cs \<Rightarrow> cased U c) \<and>
      (case dropWhile (case_ignorable U) after of [] \<Rightarrow> True | c # cs \<Rightarrow> \<not> cased U c))"

fun lower_from :: "ucd \<Rightarrow> pystr \<Rightarrow> pystr \<Rightarrow> pystr" where
  "lower_from U before [] = []"
| "lower_from U before (c # cs) =
     (if c = 0x3A3 then [if final_sigma U before cs then 0x3C2 else 0x3C3]
      else lower_full U c) @ lower_from U (c # before) cs"

definition str_lower :: "ucd \<Rightarrow> pystr \<Rightarrow> pystr" where
  "str_lower U s = lower_from U [] s"

subsection \<open>Other string operations\<close>

fun startswith :: "pystr \<Rightarrow> pystr \<Rightarrow> bool" where
  "startswith [] s = True"
| "startswith (p # ps) [] = False"
| "startswith (p # ps) (c # cs) = (p = c \<and> startswith ps cs)"

text \<open>\<^verbatim>\<open>needle in hay\<close> for two strings: \<open>needle\<close> occurs as a contiguous piece.\<close>

fun str_contains :: "pystr \<Rightarrow> pystr \<Rightarrow> bool" where
  "str_contains needle [] = (needle = [])"
| "str_contains needle (c # cs) = (startswith needle (c # cs) \<or> str_contains needle cs)"

text \<open>
  \<^verbatim>\<open>s.replace(old, new)\<close>: the occurrences of \<open>old\<close> are replaced from left to
  right, without overlap; an empty \<open>old\<close> matches before every character and at the end.
\<close>

fun replace_from :: "pystr \<Rightarrow> pystr \<Rightarrow> pystr \<Rightarrow> pystr" where
  "replace_from old new [] = []"
| "replace_from old new (c # cs) =
     (if startswith old (c # cs) then new @ replace_from old new (drop (length old - 1) cs)
      else c # replace_from old new cs)"

definition str_replace :: "pystr \<Rightarrow> pystr \<Rightarrow> pystr \<Rightarrow> pystr" where
  "str_replace old new s =
     (if old = [] then new @ concat (map (\<lambda>c. c # new) s) else replace_from old new s)"

text \<open>\<^verbatim>\<open>str(n)\<close> for an integer, as \<^verbatim>\<open>"%s" % n\<close> prints it; 48 is the digit 0.\<close>

fun str_nat :: "nat \<Rightarrow> pystr" where
  "str_nat n = (if n < 10 then [48 + n] else str_nat (n div 10) @ [48 + n mod 10])"

declare str_nat.simps [simp del]

definition str_int :: "int \<Rightarrow> pystr" where
  "str_int i = (if i < 0 then ascii ''-'' @ str_nat (nat (- i)) else str_nat (nat i))"

section \<open>Name normalizer\<close>

text \<open>
  \<^verbatim>\<open>def normalize_name(string):
      return string.replace(" ", "").replace("_", "").lower()\<close>
\<close>

definition normalize_name :: "ucd \<Rightarrow> pystr \<Rightarrow> pystr" where
  "normalize_name U s = str_lower U (str_replace (ascii ''_'') [] (str_replace (ascii '' '') [] s))"

section \<open>Regular expressions\<close>

text \<open>
  The fragment of Python's \<^verbatim>\<open>re\<close> that the module uses: literals, sequence,
  alternation, the optional \<^verbatim>\<open>?\<close> and the anchors \<^verbatim>\<open>^\<close> and
  \<^verbatim>\<open>$\<close>. The matcher backtracks as \<^verbatim>\<open>re.match\<close> does: from a position
  (the number of characters consumed and the rest of the text) it yields, in the order in which
  they are tried, every position at which the expression can end. Without
  \<^verbatim>\<open>re.MULTILINE\<close>, \<^verbatim>\<open>$\<close> holds at the end of the text and also just
  before a newline (code point 10) that ends the text.

  With \<^verbatim>\<open>re.IGNORECASE\<close> on a string pattern, the compiler of \<^verbatim>\<open>re\<close>
  leaves a literal that is not cased (its simple lowercase and uppercase are both itself) as
  it is; a cased literal is replaced by its simple lowercase \<open>lo\<close>, together with the
  code points that the table \<^verbatim>\<open>_EXTRA_CASES\<close> of the standard library lists for
  \<open>lo\<close> (other lowercase letters with the same uppercase), and a character of the text
  matches when its simple lowercase is one of these.
\<close>

definition extra_cases :: "nat \<Rightarrow> nat list" where
  "extra_cases lo =
     (case map_of
       [(0x0069, [0x0131]), (0x0073, [0x017F]), (0x00B5, [0x03BC]),
        (0x0131, [0x0069]), (0x017F, [0x0073]), (0x0345, [0x03B9, 0x1FBE]),
        (0x0390, [0x1FD3]), (0x03B0, [0x1FE3]), (0x03B2, [0x03D0]),
        (0x03B5, [0x03F5]), (0x03B8, [0x03D1]), (0x03B9, [0x0345, 0x1FBE]),
        (0x03BA, [0x03F0]), (0x03BC, [0x00B5]), (0x03C0, [0x03D6]),
        (0x03C1, [0x03F1]), (0x03C2, [0x03C3]), (0x03C3, [0x03C2]),
        (0x03C6, [0x03D5]), (0x03D0, [0x03B2]), (0x03D1, [0x03B8]),
        (0x03D5, [0x03C6]), (0x03D6, [0x03C0]), (0x03F0, [0x03BA]),
        (0x03F1, [0x03C1]), (0x03F5, [0x03B5]), (0x0432, [0x1C80]),
        (0x0434, [0x1C81]), (0x043E, [0x1C82]), (0x0441, [0x1C83]),
        (0x0442, [0x1C84, 0x1C85]), (0x044A, [0x1C86]), (0x0463, [0x1C87]),
        (0x1C80, [0x0432]), (0x1C81, [0x0434]), (0x1C82, [0x043E]),
        (0x1C83, [0x0441]), (0x1C84, [0x0442, 0x1C85]), (0x1C85, [0x0442, 0x1C84]),
        (0x1C86, [0x044A]), (0x1C87, [0x0463]), (0x1C88, [0xA64B]),
        (0x1E61, [0x1E9B]), (0x1E9B, [0x1E61]), (0x1FBE, [0x0345, 0x03B9]),
        (0x1FD3, [0x0390]), (0x1FE3, [0x03B0]), (0xA64B, [0x1C88]),
        (0xFB05, [0xFB06]), (0xFB06, [0xFB05])] lo of
        None \<Rightarrow> []
      | Some ks \<Rightarrow> ks)"

definition iscased :: "ucd \<Rightarrow> nat \<Rightarrow> bool" where
  "iscased U c = (c \<noteq> tolower U c \<or> c \<noteq> toupper U c)"

definition lit_match :: "ucd \<Rightarrow> bool \<Rightarrow> nat \<Rightarrow> nat \<Rightarrow> bool" where
  "lit_match U ic p c =
     (if \<not> ic then c = p
      else if \<not> iscased U p then c = p
      else tolower U c \<in> set (tolower U p # extra_cases (tolower U p)))"

datatype regex = Eps | Lit nat | Seq regex regex | Alt regex regex | Opt regex | Bol | Eol

fun re_run :: "ucd \<Rightarrow> bool \<Rightarrow> regex \<Rightarrow> nat \<times> pystr \<Rightarrow> (nat \<times> pystr) list" where
  "re_run U ic Eps st = [st]"
| "re_run U ic (Lit p) (n, s) =
     (case s of
        [] \<Rightarrow> []
      | c # cs \<Rightarrow> if lit_match U ic p c then [(Suc n, cs)] else [])"
| "re_run U ic (Seq a b) st = concat (map (re_run U ic b) (re_run U ic a st))"
| "re_run U ic (Alt a b) st = re_run U ic a st @ re_run U ic b st"
| "re_run U ic (Opt a) st = re_run U ic a st @ [st]"
| "re_run U ic Bol (n, s) = (if n = 0 then [(n, s)] else [])"
| "re_run U ic Eol (n, s) = (if s = [] \<or> s = [10] then [(n, s)] else [])"

text \<open>\<^verbatim>\<open>re.match(pattern, s, flags)\<close> read as a truth value: is there a match at position 0.\<close>

definition re_match :: "ucd \<Rightarrow> bool \<Rightarrow> regex \<Rightarrow> pystr \<Rightarrow> bool" where
  "re_match U ic r s = (re_run U ic r (0, s) \<noteq> [])"

fun re_str :: "pystr \<Rightarrow> regex" where
  "re_str [] = Eps"
| "re_str (c # cs) = Seq (Lit c) (re_str cs)"

text \<open>
  \<^verbatim>\<open>r'^(settings?|metadata|(test )?cases?|(user )?keywords?|variables?)$'\<close>:
  the group between the anchors, then the whole pattern. 115 is the letter s.
\<close>

definition table_name_body :: regex where
  "table_name_body =
       (Alt (Seq (re_str (ascii ''setting'')) (Opt (Lit 115)))
       (Alt (re_str (ascii ''metadata''))
       (Alt (Seq (Opt (re_str (ascii ''test ''))) (Seq (re_str (ascii ''case'')) (Opt (Lit 115))))
       (Alt (Seq (Opt (re_str (ascii ''user ''))) (Seq (re_str (ascii ''keyword'')) (Opt (Lit 115))))
            (Seq (re_str (ascii ''variable'')) (Opt (Lit 115)))))))"

definition table_name_re :: regex where
  "table_name_re = Seq Bol (Seq table_name_body Eol)"

section \<open>Document model\<close>

text \<open>
  Modelled from the spec: the classes of \<^verbatim>\<open>rflint.parser\<close> (the parser is not part of
  the module). A row is its cells and its line number; \<^verbatim>\<open>row[i]\<close> indexes the cells and
  iterating a row yields them in order. A table has a class (only
  \<^verbatim>\<open>isinstance(table, SettingTable)\<close> is ever asked), the header text as written,
  the header's line number and its rows. A suite exposes its path, name, tables, keywords and
  test cases, all in source order.
\<close>

datatype table_class = SettingTable | OtherTable

record row =
  cells :: "pystr list"
  row_linenumber :: int

record table =
  table_kind :: table_class
  table_name :: pystr
  table_linenumber :: int
  rows :: "row list"

record keyword_def =
  kw_name :: pystr
  kw_linenumber :: int

record testcase_def =
  tc_name :: pystr
  tc_linenumber :: int

record suite =
  suite_path :: pystr
  suite_name :: pystr
  suite_tables :: "table list"
  suite_keywords :: "keyword_def list"
  suite_testcases :: "testcase_def list"

definition isinstance_SettingTable :: "table \<Rightarrow> bool" where
  "isinstance_SettingTable t = (table_kind t = SettingTable)"

section \<open>Violation reporter\<close>

text \<open>
  Modelled from the spec: \<^verbatim>\<open>self.report(suite, message, linenumber)\<close> of
  \<^verbatim>\<open>rflint.common\<close> appends one finding, with the severity of the reporting rule,
  to the findings collected so far.
\<close>

datatype severity = ERROR | WARNING

record violation =
  severity :: severity
  message :: pystr
  linenumber :: int

type_synonym reporter = "violation list"

definition report :: "severity \<Rightarrow> pystr \<Rightarrow> int \<Rightarrow> reporter \<Rightarrow> reporter" where
  "report sev msg ln rep = rep @ [\<lparr>severity = sev, message = msg, linenumber = ln\<rparr>]"

text \<open>
  What one \<^verbatim>\<open>apply\<close> call leaves behind: the findings collected, and the exception
  that ended the call, if one did. Findings reported before an exception stay reported.
\<close>

type_synonym outcome = "reporter \<times> error option"

text \<open>How a loop body that may \<^verbatim>\<open>return\<close> from the method ends.\<close>

datatype flow = Next | Return | Raise error

section \<open>The rules\<close>

text \<open>In the messages, 34 is the double quote and 39 the apostrophe.\<close>

subsection \<open>RequiredRobotFileSuffxAndFolder\<close>

definition RequiredRobotFileSuffxAndFolder_apply :: "suite \<Rightarrow> reporter \<Rightarrow> outcome" where
  "RequiredRobotFileSuffxAndFolder_apply d rep =
     (let rep1 = (if \<not> str_contains (ascii ''.robot'') (suite_path d)
                  then report ERROR (ascii ''Required file suffix is '' @ [34] @ ascii ''.robot'' @ [34]) 0 rep
                  else rep);
          rep2 = (if \<not> str_contains (ascii ''5GC'') (suite_path d)
                  then report ERROR (ascii ''Required Parent folder is '' @ [34] @ ascii ''5GC*'' @ [34]) 0 rep1
                  else rep1)
      in (rep2, None))"

subsection \<open>RequirdNoCurdirInImporting\<close>

definition curdir_message :: pystr where
  "curdir_message = ascii ''Don'' @ [39] @ ascii ''t use ${CURDIR}''"

fun curdir_rows :: "row list \<Rightarrow> reporter \<Rightarrow> outcome" where
  "curdir_rows [] rep = (rep, None)"
| "curdir_rows (r # rs) rep =
     (case list_get (cells r) 0 of
        Inl e \<Rightarrow> (rep, Some e)
      | Inr c0 \<Rightarrow>
          if c0 = ascii ''Resource'' then
            (case list_get (cells r) 1 of
               Inl e \<Rightarrow> (rep, Some e)
             | Inr c1 \<Rightarrow>
                 if str_contains (ascii ''${CURDIR}'') c1
                 then curdir_rows rs (report ERROR curdir_message (row_linenumber r) rep)
                 else curdir_rows rs rep)
          else curdir_rows rs rep)"

fun curdir_tables :: "table list \<Rightarrow> reporter \<Rightarrow> outcome" where
  "curdir_tables [] rep = (rep, None)"
| "curdir_tables (t # ts) rep =
     (if isinstance_SettingTable t then
        (case curdir_rows (rows t) rep of
           (rep1, None) \<Rightarrow> curdir_tables ts rep1
         | (rep1, Some e) \<Rightarrow> (rep1, Some e))
      else curdir_tables ts rep)"

definition RequirdNoCurdirInImporting_apply :: "suite \<Rightarrow> reporter \<Rightarrow> outcome" where
  "RequirdNoCurdirInImporting_apply d rep = curdir_tables (suite_tables d) rep"

subsection \<open>RequiredAutherInfo\<close>

definition author_tokens :: "pystr list" where
  "author_tokens = [ascii ''author'', ascii ''name'', ascii ''modified'']"

definition contact_tokens :: "pystr list" where
  "contact_tokens = [ascii ''contact'', ascii ''mail'', ascii ''team'']"

text \<open>\<^verbatim>\<open>any(name in str.lower() for name in tokens)\<close>\<close>

definition any_token :: "ucd \<Rightarrow> pystr list \<Rightarrow> pystr \<Rightarrow> bool" where
  "any_token U tokens s = list_ex (\<lambda>name. str_contains name (str_lower U s)) tokens"

text \<open>The flags are the pair (\<open>AuthorFlag\<close>, \<open>ContactFlag\<close>).\<close>

fun author_cells :: "ucd \<Rightarrow> pystr list \<Rightarrow> bool \<times> bool \<Rightarrow> bool \<times> bool" where
  "author_cells U [] flags = flags"
| "author_cells U (s # ss) (af, cf) =
     author_cells U ss
       (if any_token U author_tokens s then True else af,
        if any_token U contact_tokens s then True else cf)"

fun author_rows :: "ucd \<Rightarrow> row list \<Rightarrow> bool \<times> bool \<Rightarrow> bool \<times> bool" where
  "author_rows U [] flags = flags"
| "author_rows U (r # rs) flags = author_rows U rs (author_cells U (cells r) flags)"

fun author_tables :: "ucd \<Rightarrow> table list \<Rightarrow> reporter \<Rightarrow> reporter" where
  "author_tables U [] rep = rep"
| "author_tables U (t # ts) rep =
     (if isinstance_SettingTable t then
        (case author_rows U (rows t) (False, False) of
           (af, cf) \<Rightarrow>
             let rep1 = (if af = False then report ERROR (ascii ''Author name is needed'') 1 rep else rep);
                 rep2 = (if cf = False then report ERROR (ascii ''Contact list is needed'') 1 rep1 else rep1)
             in author_tables U ts rep2)
      else author_tables U ts rep)"

definition RequiredAutherInfo_apply :: "ucd \<Rightarrow> suite \<Rightarrow> reporter \<Rightarrow> outcome" where
  "RequiredAutherInfo_apply U d rep = (author_tables U (suite_tables d) rep, None)"

subsection \<open>PeriodInSuiteName\<close>

definition PeriodInSuiteName_apply :: "suite \<Rightarrow> reporter \<Rightarrow> outcome" where
  "PeriodInSuiteName_apply d rep =
     (if str_contains (ascii ''.'') (suite_name d)
      then (report WARNING
              ([39] @ ascii ''.'' @ [39] @ ascii '' in suite name '' @ [39] @ suite_name d @ [39])
              0 rep, None)
      else (rep, None))"

subsection \<open>InvalidTable\<close>

definition unknown_table_message :: "pystr \<Rightarrow> pystr" where
  "unknown_table_message n = ascii ''Unknown table name '' @ [39] @ n @ [39]"

fun invalid_tables :: "ucd \<Rightarrow> table list \<Rightarrow> reporter \<Rightarrow> reporter" where
  "invalid_tables U [] rep = rep"
| "invalid_tables U (t # ts) rep =
     invalid_tables U ts
       (if \<not> re_match U True table_name_re (table_name t)
        then report WARNING (unknown_table_message (table_name t)) (table_linenumber t) rep
        else rep)"

definition InvalidTable_apply :: "ucd \<Rightarrow> suite \<Rightarrow> reporter \<Rightarrow> outcome" where
  "InvalidTable_apply U d rep = (invalid_tables U (suite_tables d) rep, None)"

subsection \<open>DuplicateKeywordNames and DuplicateTestNames\<close>

definition duplicate_keyword_message :: "pystr \<Rightarrow> pystr" where
  "duplicate_keyword_message n = ascii ''Duplicate keyword name '' @ [39] @ n @ [39]"

definition duplicate_testcase_message :: "pystr \<Rightarrow> pystr" where
  "duplicate_testcase_message n = ascii ''Duplicate testcase name '' @ [39] @ n @ [39]"

fun duplicate_keywords :: "ucd \<Rightarrow> keyword_def list \<Rightarrow> pystr list \<Rightarrow> reporter \<Rightarrow> reporter" where
  "duplicate_keywords U [] cache rep = rep"
| "duplicate_keywords U (k # ks) cache rep =
     (let name = normalize_name U (kw_name k)
      in duplicate_keywords U ks (cache @ [name])
           (if name \<in> set cache
            then report ERROR (duplicate_keyword_message (kw_name k)) (kw_linenumber k) rep
            else rep))"

definition DuplicateKeywordNames_apply :: "ucd \<Rightarrow> suite \<Rightarrow> reporter \<Rightarrow> outcome" where
  "DuplicateKeywordNames_apply U d rep = (duplicate_keywords U (suite_keywords d) [] rep, None)"

fun duplicate_testcases :: "ucd \<Rightarrow> testcase_def list \<Rightarrow> pystr list \<Rightarrow> reporter \<Rightarrow> reporter" where
  "duplicate_testcases U [] cache rep = rep"
| "duplicate_testcases U (k # ks) cache rep =
     (let name = normalize_name U (tc_name k)
      in duplicate_testcases U ks (cache @ [name])
           (if name \<in> set cache
            then report ERROR (duplicate_testcase_message (tc_name k)) (tc_linenumber k) rep
            else rep))"

definition DuplicateTestNames_apply :: "ucd \<Rightarrow> suite \<Rightarrow> reporter \<Rightarrow> outcome" where
  "DuplicateTestNames_apply U d rep = (duplicate_testcases U (suite_testcases d) [] rep, None)"

subsection \<open>RequireSuiteDocumentation\<close>

fun documentation_rows :: "ucd \<Rightarrow> row list \<Rightarrow> flow" where
  "documentation_rows U [] = Next"
| "documentation_rows U (r # rs) =
     (case list_get (cells r) 0 of
        Inl e \<Rightarrow> Raise e
      | Inr c0 \<Rightarrow>
          if str_lower U c0 = ascii ''documentation'' then Return else documentation_rows U rs)"

fun documentation_tables :: "ucd \<Rightarrow> table list \<Rightarrow> flow" where
  "documentation_tables U [] = Next"
| "documentation_tables U (t # ts) =
     (if isinstance_SettingTable t then
        (case documentation_rows U (rows t) of
           Next \<Rightarrow> documentation_tables U ts
         | Return \<Rightarrow> Return
         | Raise e \<Rightarrow> Raise e)
      else documentation_tables U ts)"

text \<open>The second loop: the first settings table sets \<open>linenum\<close> and breaks.\<close>

fun first_setting_linenum :: "table list \<Rightarrow> int \<Rightarrow> int" where
  "first_setting_linenum [] linenum = linenum"
| "first_setting_linenum (t # ts) linenum =
     (if isinstance_SettingTable t then table_linenumber t + 1
      else first_setting_linenum ts linenum)"

definition RequireSuiteDocumentation_apply :: "ucd \<Rightarrow> suite \<Rightarrow> reporter \<Rightarrow> outcome" where
  "RequireSuiteDocumentation_apply U d rep =
     (case documentation_tables U (suite_tables d) of
        Return \<Rightarrow> (rep, None)
      | Raise e \<Rightarrow> (rep, Some e)
      | Next \<Rightarrow>
          (report WARNING (ascii ''No suite documentation'') (first_setting_linenum (suite_tables d) 1) rep,
           None))"

subsection \<open>TooManyTestCases\<close>

text \<open>
  The class attribute \<^verbatim>\<open>max_allowed = 10\<close> is the default;
  \<^verbatim>\<open>configure\<close> replaces it by \<^verbatim>\<open>int(max_allowed)\<close>, any
  integer. The attribute is the \<open>max_allowed\<close> argument of the model of \<^verbatim>\<open>apply\<close>.
\<close>

definition default_max_allowed :: int where
  "default_max_allowed = 10"

definition too_many_message :: "nat \<Rightarrow> int \<Rightarrow> pystr" where
  "too_many_message n m =
     ascii ''Too many test cases ('' @ str_int (int n) @ ascii '' > '' @ str_int m @
     ascii '') in test suite''"

fun template_rows :: "ucd \<Rightarrow> row list \<Rightarrow> flow" where
  "template_rows U [] = Next"
| "template_rows U (r # rs) =
     (case list_get (cells r) 0 of
        Inl e \<Rightarrow> Raise e
      | Inr c0 \<Rightarrow>
          if str_lower U c0 = ascii ''test template'' then Return else template_rows U rs)"

fun template_tables :: "ucd \<Rightarrow> table list \<Rightarrow> flow" where
  "template_tables U [] = Next"
| "template_tables U (t # ts) =
     (if isinstance_SettingTable t then
        (case template_rows U (rows t) of
           Next \<Rightarrow> template_tables U ts
         | Return \<Rightarrow> Return
         | Raise e \<Rightarrow> Raise e)
      else template_tables U ts)"

definition TooManyTestCases_apply :: "ucd \<Rightarrow> int \<Rightarrow> suite \<Rightarrow> reporter \<Rightarrow> outcome" where
  "TooManyTestCases_apply U max_allowed d rep =
     (case template_tables U (suite_tables d) of
        Return \<Rightarrow> (rep, None)
      | Raise e \<Rightarrow> (rep, Some e)
      | Next \<Rightarrow>
          (let testcases = suite_testcases d
           in if int (length testcases) > max_allowed then
                (case list_get testcases max_allowed of
                   Inl e \<Rightarrow> (rep, Some e)
                 | Inr tc \<Rightarrow>
                     (report WARNING (too_many_message (length testcases) max_allowed)
                        (tc_linenumber tc) rep, None))
              else (rep, None)))"

subsection \<open>The rule set\<close>

text \<open>
  A rule object is its class and its instance attributes; only \<open>TooManyTestCases\<close> has one,
  \<open>max_allowed\<close>. No \<^verbatim>\<open>apply\<close> assigns to an attribute of \<^verbatim>\<open>self\<close>, so
  a call returns no new rule object.
\<close>

datatype rule =
    RequiredRobotFileSuffxAndFolder
  | RequirdNoCurdirInImporting
  | RequiredAutherInfo
  | PeriodInSuiteName
  | InvalidTable
  | DuplicateKeywordNames
  | DuplicateTestNames
  | RequireSuiteDocumentation
  | TooManyTestCases int

fun rule_apply :: "ucd \<Rightarrow> rule \<Rightarrow> suite \<Rightarrow> reporter \<Rightarrow> outcome" where
  "rule_apply U RequiredRobotFileSuffxAndFolder d rep = RequiredRobotFileSuffxAndFolder_apply d rep"
| "rule_apply U RequirdNoCurdirInImporting d rep = RequirdNoCurdirInImporting_apply d rep"
| "rule_apply U RequiredAutherInfo d rep = RequiredAutherInfo_apply U d rep"
| "rule_apply U PeriodInSuiteName d rep = PeriodInSuiteName_apply d rep"
| "rule_apply U InvalidTable d rep = InvalidTable_apply U d rep"
| "rule_apply U DuplicateKeywordNames d rep = DuplicateKeywordNames_apply U d rep"
| "rule_apply U DuplicateTestNames d rep = DuplicateTestNames_apply U d rep"
| "rule_apply U RequireSuiteDocumentation d rep = RequireSuiteDocumentation_apply U d rep"
| "rule_apply U (TooManyTestCases max_allowed) d rep = TooManyTestCases_apply U max_allowed d rep"

definition suite_rules :: "int \<Rightarrow> rule list" where
  "suite_rules max_allowed =
     [RequiredRobotFileSuffxAndFolder, RequirdNoCurdirInImporting, RequiredAutherInfo,
      PeriodInSuiteName, InvalidTable, DuplicateKeywordNames, DuplicateTestNames,
      RequireSuiteDocumentation, TooManyTestCases max_allowed]"

text \<open>
  Modelled from the spec: the engine that runs the rules is not part of the module. It
  applies every rule in turn to the document; a rule that raises is recorded as an engine
  fault and the remaining rules still run. The state of a run is the findings and the faults
  collected so far.
\<close>

type_synonym run_state = "reporter \<times> (rule \<times> error) list"

fun run_rule :: "ucd \<Rightarrow> rule \<Rightarrow> suite \<Rightarrow> run_state \<Rightarrow> run_state" where
  "run_rule U r d (rep, faults) =
     (case rule_apply U r d rep of
        (rep1, None) \<Rightarrow> (rep1, faults)
      | (rep1, Some e) \<Rightarrow> (rep1, faults @ [(r, e)]))"

fun run_rules :: "ucd \<Rightarrow> rule list \<Rightarrow> suite \<Rightarrow> run_state \<Rightarrow> run_state" where
  "run_rules U [] d st = st"
| "run_rules U (r # rs) d st = run_rules U rs d (run_rule U r d st)"

section \<open>Vocabulary of the claims\<close>

subsection \<open>ASCII letters and facts of the Unicode character database\<close>

text \<open>The capital letters are 65 to 90, the small letters 97 to 122.\<close>

definition ascii_letter :: "nat \<Rightarrow> bool" where
  "ascii_letter c = ((65 \<le> c \<and> c \<le> 90) \<or> (97 \<le> c \<and> c \<le> 122))"

definition ascii_lower :: "nat \<Rightarrow> nat" where
  "ascii_lower c = (if 65 \<le> c \<and> c \<le> 90 then c + 32 else c)"

definition ascii_upper :: "nat \<Rightarrow> nat" where
  "ascii_upper c = (if 97 \<le> c \<and> c \<le> 122 then c - 32 else c)"

text \<open>
  What \<^verbatim>\<open>str.lower()\<close> needs to know about ASCII, true of every version of the
  database: the full lowercase mapping of an ASCII character is the one character
  \<open>ascii_lower\<close> gives, the cased ASCII characters are the letters, and no ASCII letter
  is case-ignorable.
\<close>

definition ascii_case_data :: "ucd \<Rightarrow> bool" where
  "ascii_case_data U =
     (\<forall>c<128. lower_full U c = [ascii_lower c] \<and> cased U c = ascii_letter c \<and>
               (ascii_letter c \<longrightarrow> \<not> case_ignorable U c))"

text \<open>
  What \<^verbatim>\<open>re.IGNORECASE\<close> needs to know about the letters of an ASCII pattern, true
  of the database: on ASCII the simple case mappings are the ASCII ones; the only code
  points outside ASCII whose simple lowercase is an ASCII character are U+0130 (capital I
  with dot above, to i) and U+212A (the Kelvin sign, to k); and the dotless i U+0131 and the
  long s U+017F are the simple lowercase of themselves only.
\<close>

definition ignorecase_data :: "ucd \<Rightarrow> bool" where
  "ignorecase_data U =
     ((\<forall>c<128. tolower U c = ascii_lower c \<and> toupper U c = ascii_upper c) \<and>
      (\<forall>c\<ge>128. tolower U c < 128 \<longrightarrow> c = 0x130 \<or> c = 0x212A) \<and>
      tolower U 0x130 = 0x69 \<and> tolower U 0x212A = 0x6B \<and>
      (\<forall>c. tolower U c = 0x131 \<longleftrightarrow> c = 0x131) \<and>
      (\<forall>c. tolower U c = 0x17F \<longleftrightarrow> c = 0x17F))"

subsection \<open>Names that differ by separators and letter case\<close>

text \<open>The separators: the space (32) and the underscore (95).\<close>

definition is_sep :: "nat \<Rightarrow> bool" where
  "is_sep c = (c = 32 \<or> c = 95)"

text \<open>
  Two names differ only by separators and by a relation \<open>R\<close> on characters: spaces and
  underscores may be inserted, dropped or exchanged anywhere, and every other character may
  be replaced by one that \<open>R\<close> relates to it.
\<close>

inductive sep_variant :: "(nat \<Rightarrow> nat \<Rightarrow> bool) \<Rightarrow> pystr \<Rightarrow> pystr \<Rightarrow> bool"
  for R :: "nat \<Rightarrow> nat \<Rightarrow> bool" where
  sv_Nil: "sep_variant R [] []"
| sv_left: "is_sep c \<Longrightarrow> sep_variant R x y \<Longrightarrow> sep_variant R (c # x) y"
| sv_right: "is_sep c \<Longrightarrow> sep_variant R x y \<Longrightarrow> sep_variant R x (c # y)"
| sv_char: "\<not> is_sep a \<Longrightarrow> \<not> is_sep b \<Longrightarrow> R a b \<Longrightarrow>
     sep_variant R x y \<Longrightarrow> sep_variant R (a # x) (b # y)"

text \<open>The same character, or an ASCII letter and its other case.\<close>

definition ascii_case_pair :: "nat \<Rightarrow> nat \<Rightarrow> bool" where
  "ascii_case_pair a b =
     (a = b \<or> (65 \<le> a \<and> a \<le> 90 \<and> b = a + 32) \<or> (65 \<le> b \<and> b \<le> 90 \<and> a = b + 32))"

text \<open>
  The same character, or two characters, neither the capital sigma, that have the same full
  lowercase mapping and agree in being cased and in being case-ignorable.
\<close>

definition case_pair :: "ucd \<Rightarrow> nat \<Rightarrow> nat \<Rightarrow> bool" where
  "case_pair U a b =
     (a = b \<or>
      (a \<noteq> 0x3A3 \<and> b \<noteq> 0x3A3 \<and> lower_full U a = lower_full U b \<and>
       cased U a = cased U b \<and> case_ignorable U a = case_ignorable U b))"

subsection \<open>Settings tables and their rows\<close>

text \<open>The settings tables of a document, in source order, and their rows.\<close>

definition setting_tables :: "suite \<Rightarrow> table list" where
  "setting_tables d = filter isinstance_SettingTable (suite_tables d)"

definition setting_rows :: "suite \<Rightarrow> row list" where
  "setting_rows d = concat (map rows (setting_tables d))"

text \<open>Some cell of some row of the table contains one of the tokens, letter case ignored.\<close>

definition mentions :: "ucd \<Rightarrow> pystr list \<Rightarrow> table \<Rightarrow> bool" where
  "mentions U tokens t =
     (\<exists>r \<in> set (rows t). \<exists>c \<in> set (cells r). \<exists>tok \<in> set tokens. str_contains tok (str_lower U c))"

definition author_missing :: violation where
  "author_missing = \<lparr>severity = ERROR, message = ascii ''Author name is needed'', linenumber = 1\<rparr>"

definition contact_missing :: violation where
  "contact_missing = \<lparr>severity = ERROR, message = ascii ''Contact list is needed'', linenumber = 1\<rparr>"

text \<open>Every settings-table row has at least one cell.\<close>

definition rows_nonempty :: "suite \<Rightarrow> bool" where
  "rows_nonempty d = list_all (\<lambda>r. cells r \<noteq> []) (setting_rows d)"

text \<open>
  A row the no-parent-relative-import rule can index: it has a first cell, and a second one
  if the first is "Resource".
\<close>

definition row_indexable :: "row \<Rightarrow> bool" where
  "row_indexable r =
     (case cells r of [] \<Rightarrow> False | [c0] \<Rightarrow> c0 \<noteq> ascii ''Resource'' | c0 # c1 # cs \<Rightarrow> True)"

definition rows_indexable :: "suite \<Rightarrow> bool" where
  "rows_indexable d = list_all row_indexable (setting_rows d)"

text \<open>A row whose first cell is exactly "Resource" and whose second cell contains "${CURDIR}".\<close>

definition resource_curdir_row :: "row \<Rightarrow> bool" where
  "resource_curdir_row r =
     (case cells r of
        c0 # c1 # cs \<Rightarrow> c0 = ascii ''Resource'' \<and> str_contains (ascii ''${CURDIR}'') c1
      | _ \<Rightarrow> False)"

text \<open>
  Some settings-table row has a first cell that equals the key, letter case ignored (the cell
  lowercased by \<^verbatim>\<open>str.lower()\<close> is the key).
\<close>

definition has_first_cell :: "ucd \<Rightarrow> pystr \<Rightarrow> suite \<Rightarrow> bool" where
  "has_first_cell U key d =
     (\<exists>r \<in> set (setting_rows d). cells r \<noteq> [] \<and> str_lower U (hd (cells r)) = key)"

subsection \<open>Table headers\<close>

text \<open>
  The recognized table headers, in lower case: setting(s), metadata, case(s) with an optional
  "test " in front, keyword(s) with an optional "user " in front, variable(s).
\<close>

definition table_header_forms :: "pystr list" where
  "table_header_forms =
     map ascii
       [''setting'', ''settings'', ''metadata'', ''case'', ''cases'', ''test case'', ''test cases'',
        ''keyword'', ''keywords'', ''user keyword'', ''user keywords'', ''variable'', ''variables'']"

text \<open>The header lowercased by \<^verbatim>\<open>str.lower()\<close> is one of the forms.\<close>

definition lowers_to_form :: "ucd \<Rightarrow> pystr \<Rightarrow> bool" where
  "lowers_to_form U n = (str_lower U n \<in> set table_header_forms)"

text \<open>
  The characters that stand for a character \<open>p\<close> of a form when letter case is ignored as
  \<^verbatim>\<open>re.IGNORECASE\<close> does: a small letter stands for itself and for its capital, and
  besides i (105) for U+0130 and U+0131, s (115) for U+017F and k (107) for U+212A; any
  other character of a form (the space) stands for itself only.
\<close>

definition ignorecase_chars :: "nat \<Rightarrow> nat list" where
  "ignorecase_chars p =
     (if 97 \<le> p \<and> p \<le> 122 then
        [p, p - 32] @
        (if p = 105 then [0x130, 0x131] else if p = 115 then [0x17F]
         else if p = 107 then [0x212A] else [])
      else [p])"

text \<open>
  A header is recognized when it has the length of a form and each of its characters
  stands for the character of the form at the same place.
\<close>

definition recognized_header :: "pystr \<Rightarrow> bool" where
  "recognized_header n =
     list_ex (list_all2 (\<lambda>c p. c \<in> set (ignorecase_chars p)) n) table_header_forms"

text \<open>The header ends in a newline and is recognized once that newline is dropped.\<close>

definition recognized_before_newline :: "pystr \<Rightarrow> bool" where
  "recognized_before_newline n =
     (n \<noteq> [] \<and> last n = 10 \<and> recognized_header (butlast n))"

text \<open>
  For the proofs about the matcher: an expression without anchors, and the finite list of
  words of literals it stands for.
\<close>

fun anchor_free :: "regex \<Rightarrow> bool" where
  "anchor_free Eps = True"
| "anchor_free (Lit p) = True"
| "anchor_free (Seq a b) = (anchor_free a \<and> anchor_free b)"
| "anchor_free (Alt a b) = (anchor_free a \<and> anchor_free b)"
| "anchor_free (Opt a) = anchor_free a"
| "anchor_free Bol = False"
| "anchor_free Eol = False"

fun re_words :: "regex \<Rightarrow> pystr list" where
  "re_words Eps = [[]]"
| "re_words (Lit p) = [[p]]"
| "re_words (Seq a b) = concat (map (\<lambda>x. map (\<lambda>y. x @ y) (re_words b)) (re_words a))"
| "re_words (Alt a b) = re_words a @ re_words b"
| "re_words (Opt a) = re_words a @ [[]]"
| "re_words Bol = []"
| "re_words Eol = []"

section \<open>Example data\<close>

text \<open>
  A finite part of the Unicode character database, for the examples: the ASCII characters,
  U+0130, U+0131, U+017F, U+212A, the Greek letters alpha (U+0391, U+03B1) and sigma (U+03A3,
  U+03C2, U+03C3) and the combining dot above U+0307, as the database has them. On every
  other code point this part is the identity and says neither cased nor case-ignorable; no
  example uses such a code point.
\<close>

definition part_tolower :: "nat \<Rightarrow> nat" where
  "part_tolower c =
     (if 65 \<le> c \<and> c \<le> 90 then c + 32
      else if c = 0x130 then 0x69 else if c = 0x212A then 0x6B
      else if c = 0x391 then 0x3B1 else if c = 0x3A3 then 0x3C3 else c)"

definition part_toupper :: "nat \<Rightarrow> nat" where
  "part_toupper c =
     (if 97 \<le> c \<and> c \<le> 122 then c - 32
      else if c = 0x131 then 0x49 else if c = 0x17F then 0x53
      else if c = 0x3B1 then 0x391 else if c = 0x3C2 \<or> c = 0x3C3 then 0x3A3 else c)"

definition ucd_part :: ucd where
  "ucd_part =
     \<lparr>lower_full = (\<lambda>c. if c = 0x130 then [0x69, 0x307] else [part_tolower c]),
      tolower = part_tolower,
      toupper = part_toupper,
      cased = (\<lambda>c. ascii_letter c \<or>
                 c \<in> set [0x130, 0x131, 0x17F, 0x212A, 0x391, 0x3A3, 0x3B1, 0x3C2, 0x3C3]),
      case_ignorable = (\<lambda>c. c \<in> set [0x27, 0x2E, 0x3A, 0x5E, 0x60, 0x307])\<rparr>"

definition mk_row :: "int \<Rightarrow> string list \<Rightarrow> row" where
  "mk_row ln cs = \<lparr>cells = map ascii cs, row_linenumber = ln\<rparr>"

definition settings_table :: "int \<Rightarrow> row list \<Rightarrow> table" where
  "settings_table ln rs =
     \<lparr>table_kind = SettingTable, table_name = ascii ''Settings'', table_linenumber = ln, rows = rs\<rparr>"

definition other_table :: "pystr \<Rightarrow> int \<Rightarrow> row list \<Rightarrow> table" where
  "other_table n ln rs =
     \<lparr>table_kind = OtherTable, table_name = n, table_linenumber = ln, rows = rs\<rparr>"

definition mk_testcase :: "string \<Rightarrow> int \<Rightarrow> testcase_def" where
  "mk_testcase n ln = \<lparr>tc_name = ascii n, tc_linenumber = ln\<rparr>"

definition mk_suite :: "table list \<Rightarrow> testcase_def list \<Rightarrow> suite" where
  "mk_suite ts tcs =
     \<lparr>suite_path = ascii ''5GC000165/suite.robot'', suite_name = ascii ''suite'', suite_tables = ts,
      suite_keywords = [], suite_testcases = tcs\<rparr>"

text \<open>A suite that makes most rules report, and what one run of the rule set finds in it.\<close>

definition example_suite :: suite where
  "example_suite =
     \<lparr>suite_path = ascii ''suite.txt'', suite_name = ascii ''my.suite'',
      suite_tables =
        [settings_table 1 [mk_row 2 [''Resource'', ''${CURDIR}/a.robot''], mk_row 3 [''Resource'']],
         other_table (ascii ''Configuration'') 5 []],
      suite_keywords =
        [\<lparr>kw_name = ascii ''Foo'', kw_linenumber = 7\<rparr>, \<lparr>kw_name = ascii ''foo'', kw_linenumber = 9\<rparr>],
      suite_testcases = []\<rparr>"

definition example_findings :: "violation list" where
  "example_findings =
     [\<lparr>severity = ERROR,
       message = ascii ''Required file suffix is '' @ [34] @ ascii ''.robot'' @ [34],
       linenumber = 0\<rparr>,
      \<lparr>severity = ERROR,
       message = ascii ''Required Parent folder is '' @ [34] @ ascii ''5GC*'' @ [34],
       linenumber = 0\<rparr>,
      \<lparr>severity = ERROR, message = ascii ''Don'' @ [39] @ ascii ''t use ${CURDIR}'', linenumber = 2\<rparr>,
      \<lparr>severity = ERROR, message = ascii ''Author name is needed'', linenumber = 1\<rparr>,
      \<lparr>severity = ERROR, message = ascii ''Contact list is needed'', linenumber = 1\<rparr>,
      \<lparr>severity = WARNING,
       message = [39] @ ascii ''.'' @ [39] @ ascii '' in suite name '' @ [39] @ ascii ''my.suite'' @ [39],
       linenumber = 0\<rparr>,
      \<lparr>severity = WARNING,
       message = ascii ''Unknown table name '' @ [39] @ ascii ''Configuration'' @ [39],
       linenumber = 5\<rparr>,
      \<lparr>severity = ERROR,
       message = ascii ''Duplicate keyword name '' @ [39] @ ascii ''foo'' @ [39],
       linenumber = 9\<rparr>,
      \<lparr>severity = WARNING, message = ascii ''No suite documentation'', linenumber = 2\<rparr>]"

section \<open>Properties of the string operations\<close>

lemma ascii_eq_iff [simp]: "ascii s = ascii t \<longleftrightarrow> s = t"
  by (simp add: ascii_def inj_map_eq_map inj_on_def)

lemma startswith_iff: "startswith p s \<longleftrightarrow> (\<exists>r. s = p @ r)"
  by (induction p s rule: startswith.induct) auto

lemma str_contains_iff: "str_contains n h \<longleftrightarrow> (\<exists>a b. h = a @ n @ b)"
proof (induction h)
  case Nil
  then show ?case by auto
next
  case (Cons c cs)
  show ?case
  proof
    assume "str_contains n (c # cs)"
    then consider "startswith n (c # cs)" | "str_contains n cs" by auto
    then show "\<exists>a b. c # cs = a @ n @ b"
    proof cases
      case 1
      then obtain r where "c # cs = n @ r" by (auto simp: startswith_iff)
      then have "c # cs = [] @ n @ r" by simp
      then show ?thesis by blast
    next
      case 2
      then obtain a b where "cs = a @ n @ b" using Cons.IH by auto
      then have "c # cs = (c # a) @ n @ b" by simp
      then show ?thesis by blast
    qed
  next
    assume "\<exists>a b. c # cs = a @ n @ b"
    then obtain a b where ab: "c # cs = a @ n @ b" by auto
    show "str_contains n (c # cs)"
    proof (cases a)
      case Nil
      then have "startswith n (c # cs)" using ab by (auto simp: startswith_iff)
      then show ?thesis by simp
    next
      case (Cons a0 as)
      then have "cs = as @ n @ b" using ab by simp
      then show ?thesis using Cons.IH by auto
    qed
  qed
qed

lemma str_contains_mid: "str_contains n (a @ n @ b)"
  by (auto simp: str_contains_iff)

lemma replace_from_single: "replace_from [x] [] s = filter (\<lambda>c. c \<noteq> x) s"
  by (induction s) auto

lemma str_replace_single: "str_replace [x] [] s = filter (\<lambda>c. c \<noteq> x) s"
  by (simp add: str_replace_def replace_from_single)

lemma normalize_name_filter:
  "normalize_name U s = str_lower U (filter (\<lambda>c. \<not> is_sep c) s)"
proof -
  have "filter (\<lambda>c. c \<noteq> 95) (filter (\<lambda>c. c \<noteq> 32) s) = filter (\<lambda>c. \<not> is_sep c) s"
    by (induction s) (auto simp: is_sep_def)
  then show ?thesis
    by (simp add: normalize_name_def ascii_def str_replace_single)
qed

section \<open>Lowercasing related strings\<close>

lemma dropWhile_related:
  assumes "list_all2 R xs ys" and "\<And>a b. R a b \<Longrightarrow> P a = P b"
  shows "list_all2 R (dropWhile P xs) (dropWhile P ys)"
  using assms(1)
proof (induction rule: list_all2_induct)
  case Nil
  then show ?case by simp
next
  case (Cons x xs y ys)
  then show ?case using assms(2) [of x y] by auto
qed

lemma case_pair_props:
  "case_pair U a b \<Longrightarrow>
     (a = 0x3A3 \<longleftrightarrow> b = 0x3A3) \<and> cased U a = cased U b \<and>
     case_ignorable U a = case_ignorable U b \<and> (a \<noteq> 0x3A3 \<longrightarrow> lower_full U a = lower_full U b)"
  by (auto simp: case_pair_def)

lemma sigma_context_related:
  assumes "list_all2 (case_pair U) xs ys"
  shows "(case dropWhile (case_ignorable U) xs of [] \<Rightarrow> e | c # cs \<Rightarrow> f (cased U c)) =
         (case dropWhile (case_ignorable U) ys of [] \<Rightarrow> e | c # cs \<Rightarrow> f (cased U c))"
proof -
  define dx where "dx = dropWhile (case_ignorable U) xs"
  define dy where "dy = dropWhile (case_ignorable U) ys"
  have "list_all2 (case_pair U) dx dy"
    unfolding dx_def dy_def using assms by (rule dropWhile_related) (simp add: case_pair_props)
  then have "(case dx of [] \<Rightarrow> e | c # cs \<Rightarrow> f (cased U c)) =
             (case dy of [] \<Rightarrow> e | c # cs \<Rightarrow> f (cased U c))"
    by (cases dx; cases dy) (auto dest: case_pair_props)
  then show ?thesis by (simp only: dx_def dy_def)
qed

lemma final_sigma_related:
  assumes "list_all2 (case_pair U) before before'" and "list_all2 (case_pair U) after after'"
  shows "final_sigma U before after = final_sigma U before' after'"
  unfolding final_sigma_def
  using sigma_context_related [OF assms(1), of False "\<lambda>b. b"]
    sigma_context_related [OF assms(2), of True "\<lambda>b. \<not> b"]
  by simp

lemma lower_from_related:
  "list_all2 (case_pair U) s s' \<Longrightarrow> list_all2 (case_pair U) before before' \<Longrightarrow>
   lower_from U before s = lower_from U before' s'"
proof (induction arbitrary: before before' rule: list_all2_induct)
  case Nil
  then show ?case by simp
next
  case (Cons c cs c' cs')
  have rest: "lower_from U (c # before) cs = lower_from U (c' # before') cs'"
    using Cons by simp
  have sig: "final_sigma U before cs = final_sigma U before' cs'"
    using Cons by (simp add: final_sigma_related)
  show ?case
    using case_pair_props [OF Cons.hyps(1)] rest sig by auto
qed

lemma str_lower_related:
  "list_all2 (case_pair U) s s' \<Longrightarrow> str_lower U s = str_lower U s'"
  by (simp add: str_lower_def lower_from_related)

lemma sep_variant_filter:
  "sep_variant R x y \<Longrightarrow>
   list_all2 R (filter (\<lambda>c. \<not> is_sep c) x) (filter (\<lambda>c. \<not> is_sep c) y)"
  by (induction rule: sep_variant.induct) simp_all

lemma sep_variant_mono:
  "sep_variant R x y \<Longrightarrow> (\<And>a b. R a b \<Longrightarrow> S a b) \<Longrightarrow> sep_variant S x y"
  by (induction rule: sep_variant.induct) (auto intro: sep_variant.intros)

lemma sep_variant_normalize:
  "sep_variant (case_pair U) x y \<Longrightarrow> normalize_name U x = normalize_name U y"
  by (simp add: normalize_name_filter str_lower_related sep_variant_filter)

lemma ascii_case_pair_case_pair:
  "ascii_case_data U \<Longrightarrow> ascii_case_pair a b \<Longrightarrow> case_pair U a b"
  by (auto simp: ascii_case_data_def ascii_case_pair_def case_pair_def ascii_lower_def
        ascii_letter_def)

lemma lower_from_ascii:
  "ascii_case_data U \<Longrightarrow> list_all (\<lambda>c. c < 128) s \<Longrightarrow> lower_from U before s = map ascii_lower s"
  by (induction s arbitrary: before) (auto simp: ascii_case_data_def)

lemma normalize_name_ascii:
  "ascii_case_data U \<Longrightarrow> list_all (\<lambda>c. c < 128) x \<Longrightarrow>
   normalize_name U x = map ascii_lower (filter (\<lambda>c. \<not> is_sep c) x)"
  by (simp add: normalize_name_filter str_lower_def lower_from_ascii list_all_iff)

lemma str_lower_ascii:
  "ascii_case_data U \<Longrightarrow> list_all (\<lambda>c. c < 128) x \<Longrightarrow> str_lower U x = map ascii_lower x"
  by (simp add: str_lower_def lower_from_ascii)

section \<open>The duplicate-name loops\<close>

lemma upt_Suc_shift: "[0..<Suc n] = 0 # map Suc [0..<n]"
  by (simp add: upt_conv_Cons map_Suc_upt del: upt_Suc)

lemma duplicate_keywords_char:
  "duplicate_keywords U ks cache rep =
     rep @ map (\<lambda>i. \<lparr>severity = ERROR, message = duplicate_keyword_message (kw_name (ks ! i)),
                      linenumber = kw_linenumber (ks ! i)\<rparr>)
             (filter (\<lambda>i. normalize_name U (kw_name (ks ! i)) \<in>
                            set cache \<union> set (map (\<lambda>k. normalize_name U (kw_name k)) (take i ks)))
                [0..<length ks])"
proof (induction ks arbitrary: cache rep)
  case Nil
  then show ?case by simp
next
  case (Cons k ks)
  show ?case
    by (simp add: Cons.IH upt_Suc_shift filter_map o_def Let_def report_def disj_ac
          del: upt_Suc)
qed

lemma duplicate_testcases_char:
  "duplicate_testcases U ks cache rep =
     rep @ map (\<lambda>i. \<lparr>severity = ERROR, message = duplicate_testcase_message (tc_name (ks ! i)),
                      linenumber = tc_linenumber (ks ! i)\<rparr>)
             (filter (\<lambda>i. normalize_name U (tc_name (ks ! i)) \<in>
                            set cache \<union> set (map (\<lambda>k. normalize_name U (tc_name k)) (take i ks)))
                [0..<length ks])"
proof (induction ks arbitrary: cache rep)
  case Nil
  then show ?case by simp
next
  case (Cons k ks)
  show ?case
    by (simp add: Cons.IH upt_Suc_shift filter_map o_def Let_def report_def disj_ac
          del: upt_Suc)
qed

section \<open>The author and contact scan\<close>

lemma any_token_iff:
  "any_token U tokens s \<longleftrightarrow> (\<exists>tok \<in> set tokens. str_contains tok (str_lower U s))"
  by (simp add: any_token_def list_ex_iff)

lemma author_cells_char:
  "author_cells U cs (af, cf) =
     (af \<or> (\<exists>c \<in> set cs. any_token U author_tokens c), cf \<or> (\<exists>c \<in> set cs. any_token U contact_tokens c))"
  by (induction cs arbitrary: af cf) auto

lemma author_rows_char:
  "author_rows U rs (af, cf) =
     (af \<or> (\<exists>r \<in> set rs. \<exists>c \<in> set (cells r). any_token U author_tokens c),
      cf \<or> (\<exists>r \<in> set rs. \<exists>c \<in> set (cells r). any_token U contact_tokens c))"
  by (induction rs arbitrary: af cf) (auto simp: author_cells_char)

lemma author_rows_mentions:
  "author_rows U (rows t) (False, False) = (mentions U author_tokens t, mentions U contact_tokens t)"
  by (simp add: author_rows_char mentions_def any_token_iff)

lemma author_tables_char:
  "author_tables U ts rep =
     rep @ concat (map (\<lambda>t. (if mentions U author_tokens t then [] else [author_missing]) @
                            (if mentions U contact_tokens t then [] else [contact_missing]))
                    (filter isinstance_SettingTable ts))"
  by (induction ts arbitrary: rep)
     (simp_all add: author_rows_mentions report_def author_missing_def contact_missing_def)

lemma author_tables_count_author:
  "length (filter (\<lambda>v. message v = ascii ''Author name is needed'') (author_tables U ts [])) =
   length (filter (\<lambda>t. \<not> mentions U author_tokens t) (filter isinstance_SettingTable ts))"
  by (induction ts) (simp_all add: author_tables_char author_missing_def contact_missing_def)

lemma author_tables_count_contact:
  "length (filter (\<lambda>v. message v = ascii ''Contact list is needed'') (author_tables U ts [])) =
   length (filter (\<lambda>t. \<not> mentions U contact_tokens t) (filter isinstance_SettingTable ts))"
  by (induction ts) (simp_all add: author_tables_char author_missing_def contact_missing_def)

lemma author_tables_members:
  "set (author_tables U ts []) \<subseteq> {author_missing, contact_missing}"
  by (induction ts) (auto simp: author_tables_char)

section \<open>Indexing rows\<close>

lemma list_get_0: "list_get xs 0 = (case xs of [] \<Rightarrow> Inl IndexError | x # ys \<Rightarrow> Inr x)"
  by (cases xs) (simp_all add: list_get_def)

lemma list_get_1:
  "list_get xs 1 = (case xs of x # y # ys \<Rightarrow> Inr y | _ \<Rightarrow> Inl IndexError)"
  by (cases xs; cases "tl xs") (simp_all add: list_get_def)

lemma list_get_nonneg:
  "0 \<le> i \<Longrightarrow> i < int (length xs) \<Longrightarrow> list_get xs i = Inr (xs ! nat i)"
  by (simp add: list_get_def)

section \<open>The scan for parent-relative imports\<close>

lemma curdir_rows_step:
  "row_indexable r \<Longrightarrow>
   curdir_rows (r # rs) rep =
     curdir_rows rs
       (if resource_curdir_row r
        then rep @ [\<lparr>severity = ERROR, message = curdir_message, linenumber = row_linenumber r\<rparr>]
        else rep)"
  by (auto simp: list_get_0 list_get_1 row_indexable_def resource_curdir_row_def report_def
        split: list.splits)

lemma curdir_rows_ok:
  "list_all row_indexable rs \<Longrightarrow>
   curdir_rows rs rep =
     (rep @ map (\<lambda>r. \<lparr>severity = ERROR, message = curdir_message, linenumber = row_linenumber r\<rparr>)
              (filter resource_curdir_row rs), None)"
proof (induction rs arbitrary: rep)
  case Nil
  then show ?case by simp
next
  case (Cons r rs)
  then have ih: "\<And>rep. curdir_rows rs rep =
     (rep @ map (\<lambda>r. \<lparr>severity = ERROR, message = curdir_message, linenumber = row_linenumber r\<rparr>)
              (filter resource_curdir_row rs), None)"
    by simp
  from Cons.prems have "row_indexable r" by simp
  then show ?case
    by (simp add: curdir_rows_step ih del: curdir_rows.simps)
qed

lemma curdir_rows_bad:
  "\<not> list_all row_indexable rs \<Longrightarrow> snd (curdir_rows rs rep) = Some IndexError"
proof (induction rs arbitrary: rep)
  case Nil
  then show ?case by simp
next
  case (Cons r rs)
  show ?case
  proof (cases "row_indexable r")
    case True
    with Cons.prems have "\<not> list_all row_indexable rs" by simp
    then have "\<And>rep. snd (curdir_rows rs rep) = Some IndexError" by (rule Cons.IH)
    then show ?thesis
      by (auto simp: list_get_0 list_get_1 split: list.splits)
  next
    case False
    then show ?thesis
      by (auto simp: list_get_0 list_get_1 row_indexable_def split: list.splits)
  qed
qed

lemma curdir_tables_ok:
  "list_all row_indexable (concat (map rows (filter isinstance_SettingTable ts))) \<Longrightarrow>
   curdir_tables ts rep =
     (rep @ map (\<lambda>r. \<lparr>severity = ERROR, message = curdir_message, linenumber = row_linenumber r\<rparr>)
              (filter resource_curdir_row (concat (map rows (filter isinstance_SettingTable ts)))),
      None)"
proof (induction ts arbitrary: rep)
  case Nil
  then show ?case by simp
next
  case (Cons t ts)
  show ?case
  proof (cases "isinstance_SettingTable t")
    case False
    with Cons show ?thesis by simp
  next
    case True
    with Cons.prems have ok: "list_all row_indexable (rows t)"
      and rest: "list_all row_indexable (concat (map rows (filter isinstance_SettingTable ts)))"
      by simp_all
    show ?thesis
      using True by (simp add: curdir_rows_ok [OF ok] Cons.IH [OF rest])
  qed
qed

lemma curdir_tables_bad:
  "\<not> list_all row_indexable (concat (map rows (filter isinstance_SettingTable ts))) \<Longrightarrow>
   snd (curdir_tables ts rep) = Some IndexError"
proof (induction ts arbitrary: rep)
  case Nil
  then show ?case by simp
next
  case (Cons t ts)
  show ?case
  proof (cases "isinstance_SettingTable t")
    case False
    with Cons show ?thesis by simp
  next
    case True
    show ?thesis
    proof (cases "list_all row_indexable (rows t)")
      case ok: True
      with Cons.prems True
      have "\<not> list_all row_indexable (concat (map rows (filter isinstance_SettingTable ts)))"
        by simp
      then have "\<And>rep. snd (curdir_tables ts rep) = Some IndexError" by (rule Cons.IH)
      with True ok show ?thesis by (simp add: curdir_rows_ok)
    next
      case bad: False
      then have "snd (curdir_rows (rows t) rep) = Some IndexError" by (rule curdir_rows_bad)
      with True show ?thesis by (auto split: prod.splits option.splits)
    qed
  qed
qed

section \<open>The scans for a first cell\<close>

lemma documentation_rows_char:
  "list_all (\<lambda>r. cells r \<noteq> []) rs \<Longrightarrow>
   documentation_rows U rs =
     (if \<exists>r \<in> set rs. cells r \<noteq> [] \<and> str_lower U (hd (cells r)) = ascii ''documentation''
      then Return else Next)"
  by (induction rs) (auto simp: list_get_0 split: list.splits)

lemma documentation_rows_found:
  "\<exists>r \<in> set rs. cells r \<noteq> [] \<and> str_lower U (hd (cells r)) = ascii ''documentation'' \<Longrightarrow>
   documentation_rows U rs \<noteq> Next"
  by (induction rs) (auto simp: list_get_0 split: list.splits)

lemma documentation_tables_char:
  "list_all (\<lambda>r. cells r \<noteq> []) (concat (map rows (filter isinstance_SettingTable ts))) \<Longrightarrow>
   documentation_tables U ts =
     (if \<exists>r \<in> set (concat (map rows (filter isinstance_SettingTable ts))).
           cells r \<noteq> [] \<and> str_lower U (hd (cells r)) = ascii ''documentation''
      then Return else Next)"
proof (induction ts)
  case Nil
  then show ?case by simp
next
  case (Cons t ts)
  show ?case
  proof (cases "isinstance_SettingTable t")
    case False
    with Cons show ?thesis by simp
  next
    case True
    with Cons.prems have ok: "list_all (\<lambda>r. cells r \<noteq> []) (rows t)"
      and rest: "list_all (\<lambda>r. cells r \<noteq> []) (concat (map rows (filter isinstance_SettingTable ts)))"
      by simp_all
    show ?thesis
      using True by (auto simp: documentation_rows_char [OF ok] Cons.IH [OF rest])
  qed
qed

lemma documentation_tables_found:
  "\<exists>r \<in> set (concat (map rows (filter isinstance_SettingTable ts))).
      cells r \<noteq> [] \<and> str_lower U (hd (cells r)) = ascii ''documentation'' \<Longrightarrow>
   documentation_tables U ts \<noteq> Next"
proof (induction ts)
  case Nil
  then show ?case by simp
next
  case (Cons t ts)
  show ?case
  proof (cases "isinstance_SettingTable t \<and>
      (\<exists>r \<in> set (rows t). cells r \<noteq> [] \<and> str_lower U (hd (cells r)) = ascii ''documentation'')")
    case True
    then have "documentation_rows U (rows t) \<noteq> Next" by (simp add: documentation_rows_found)
    with True show ?thesis by (auto split: flow.splits)
  next
    case False
    with Cons.prems
    have "\<exists>r \<in> set (concat (map rows (filter isinstance_SettingTable ts))).
        cells r \<noteq> [] \<and> str_lower U (hd (cells r)) = ascii ''documentation''"
      by (auto split: if_splits)
    then have "documentation_tables U ts \<noteq> Next" by (rule Cons.IH)
    then show ?thesis by (auto split: flow.splits)
  qed
qed

lemma template_rows_char:
  "list_all (\<lambda>r. cells r \<noteq> []) rs \<Longrightarrow>
   template_rows U rs =
     (if \<exists>r \<in> set rs. cells r \<noteq> [] \<and> str_lower U (hd (cells r)) = ascii ''test template''
      then Return else Next)"
  by (induction rs) (auto simp: list_get_0 split: list.splits)

lemma template_rows_found:
  "\<exists>r \<in> set rs. cells r \<noteq> [] \<and> str_lower U (hd (cells r)) = ascii ''test template'' \<Longrightarrow>
   template_rows U rs \<noteq> Next"
  by (induction rs) (auto simp: list_get_0 split: list.splits)

lemma template_tables_char:
  "list_all (\<lambda>r. cells r \<noteq> []) (concat (map rows (filter isinstance_SettingTable ts))) \<Longrightarrow>
   template_tables U ts =
     (if \<exists>r \<in> set (concat (map rows (filter isinstance_SettingTable ts))).
           cells r \<noteq> [] \<and> str_lower U (hd (cells r)) = ascii ''test template''
      then Return else Next)"
proof (induction ts)
  case Nil
  then show ?case by simp
next
  case (Cons t ts)
  show ?case
  proof (cases "isinstance_SettingTable t")
    case False
    with Cons show ?thesis by simp
  next
    case True
    with Cons.prems have ok: "list_all (\<lambda>r. cells r \<noteq> []) (rows t)"
      and rest: "list_all (\<lambda>r. cells r \<noteq> []) (concat (map rows (filter isinstance_SettingTable ts)))"
      by simp_all
    show ?thesis
      using True by (auto simp: template_rows_char [OF ok] Cons.IH [OF rest])
  qed
qed

lemma template_tables_found:
  "\<exists>r \<in> set (concat (map rows (filter isinstance_SettingTable ts))).
      cells r \<noteq> [] \<and> str_lower U (hd (cells r)) = ascii ''test template'' \<Longrightarrow>
   template_tables U ts \<noteq> Next"
proof (induction ts)
  case Nil
  then show ?case by simp
next
  case (Cons t ts)
  show ?case
  proof (cases "isinstance_SettingTable t \<and>
      (\<exists>r \<in> set (rows t). cells r \<noteq> [] \<and> str_lower U (hd (cells r)) = ascii ''test template'')")
    case True
    then have "template_rows U (rows t) \<noteq> Next" by (simp add: template_rows_found)
    with True show ?thesis by (auto split: flow.splits)
  next
    case False
    with Cons.prems
    have "\<exists>r \<in> set (concat (map rows (filter isinstance_SettingTable ts))).
        cells r \<noteq> [] \<and> str_lower U (hd (cells r)) = ascii ''test template''"
      by (auto split: if_splits)
    then have "template_tables U ts \<noteq> Next" by (rule Cons.IH)
    then show ?thesis by (auto split: flow.splits)
  qed
qed

lemma first_setting_linenum_char:
  "first_setting_linenum ts n =
     (case filter isinstance_SettingTable ts of [] \<Rightarrow> n | t # us \<Rightarrow> table_linenumber t + 1)"
  by (induction ts) simp_all

lemma row_indexable_nonempty: "row_indexable r \<Longrightarrow> cells r \<noteq> []"
  by (auto simp: row_indexable_def)

lemma rows_indexable_nonempty: "rows_indexable d \<Longrightarrow> rows_nonempty d"
  by (auto simp: rows_indexable_def rows_nonempty_def list_all_iff row_indexable_nonempty)

section \<open>The matcher and the table-header expression\<close>

lemma re_run_words:
  "anchor_free r \<Longrightarrow>
   set (re_run U True r (n, s)) =
     {(n + length u, v) | u v.
        s = u @ v \<and> (\<exists>w \<in> set (re_words r). list_all2 (\<lambda>c p. lit_match U True p c) u w)}"
proof (induction r arbitrary: n s)
  case Eps
  show ?case by auto
next
  case (Lit p)
  show ?case
  proof (cases s)
    case Nil
    then show ?thesis by (auto simp: list_all2_Cons2)
  next
    case (Cons c cs)
    show ?thesis
    proof (cases "lit_match U True p c")
      case True
      have "{(n + length u, v) | u v. c # cs = u @ v \<and> list_all2 (\<lambda>c p. lit_match U True p c) u [p]} =
            {(Suc n, cs)}"
        using True by (auto simp: list_all2_Cons2 Cons_eq_append_conv)
      then show ?thesis using True Cons by simp
    next
      case False
      have "{(n + length u, v) | u v. c # cs = u @ v \<and> list_all2 (\<lambda>c p. lit_match U True p c) u [p]} = {}"
        using False by (auto simp: list_all2_Cons2 Cons_eq_append_conv)
      then show ?thesis using False Cons by simp
    qed
  qed
next
  case (Seq a b)
  let ?M = "\<lambda>c p. lit_match U True p c"
  from Seq have fa: "\<And>n s. set (re_run U True a (n, s)) =
      {(n + length u, v) | u v. s = u @ v \<and> (\<exists>w \<in> set (re_words a). list_all2 ?M u w)}"
    and fb: "\<And>n s. set (re_run U True b (n, s)) =
      {(n + length u, v) | u v. s = u @ v \<and> (\<exists>w \<in> set (re_words b). list_all2 ?M u w)}"
    by simp_all
  show ?case
  proof (rule set_eqI, rule iffI)
    fix x
    assume "x \<in> set (re_run U True (Seq a b) (n, s))"
    then obtain m t where mt: "(m, t) \<in> set (re_run U True a (n, s))"
      and x: "x \<in> set (re_run U True b (m, t))"
      by auto
    from mt obtain u wa where u: "m = n + length u" "s = u @ t" "wa \<in> set (re_words a)"
      "list_all2 ?M u wa"
      by (auto simp: fa)
    from x obtain u' v wb where v: "x = (m + length u', v)" "t = u' @ v" "wb \<in> set (re_words b)"
      "list_all2 ?M u' wb"
      by (auto simp: fb)
    have "x = (n + length (u @ u'), v)" "s = (u @ u') @ v"
      using u v by simp_all
    moreover have "wa @ wb \<in> set (re_words (Seq a b))"
      using u v by auto
    moreover have "list_all2 ?M (u @ u') (wa @ wb)"
      using u v by (simp add: list_all2_appendI)
    ultimately show "x \<in> {(n + length u, v) | u v.
        s = u @ v \<and> (\<exists>w \<in> set (re_words (Seq a b)). list_all2 ?M u w)}"
      by blast
  next
    fix x
    assume "x \<in> {(n + length u, v) | u v.
        s = u @ v \<and> (\<exists>w \<in> set (re_words (Seq a b)). list_all2 ?M u w)}"
    then obtain u v w where x: "x = (n + length u, v)" "s = u @ v"
      and w: "w \<in> set (re_words (Seq a b))" "list_all2 ?M u w" by blast
    from w(1) obtain wa wb where ws: "wa \<in> set (re_words a)" "wb \<in> set (re_words b)" "w = wa @ wb"
      by auto
    from w(2) ws(3) obtain ua ub where us: "u = ua @ ub" "list_all2 ?M ua wa" "list_all2 ?M ub wb"
      by (auto simp: list_all2_append2)
    have "(n + length ua, ub @ v) \<in> set (re_run U True a (n, s))"
      using x us ws by (auto simp: fa)
    moreover have "x \<in> set (re_run U True b (n + length ua, ub @ v))"
      using x us ws by (auto simp: fb)
    ultimately show "x \<in> set (re_run U True (Seq a b) (n, s))"
      by simp blast
  qed
next
  case (Alt a b)
  then show ?case by auto
next
  case (Opt a)
  then show ?case by auto
next
  case Bol
  then show ?case by simp
next
  case Eol
  then show ?case by simp
qed

lemma anchor_free_re_str: "anchor_free (re_str p)"
  by (induction p) auto

lemma anchor_free_table_name_body: "anchor_free table_name_body"
  by (simp add: table_name_body_def anchor_free_re_str)

lemma re_words_table_name_body: "set (re_words table_name_body) = set table_header_forms"
  by code_simp

lemma table_header_forms_alphabet:
  "\<forall>w \<in> set table_header_forms. \<forall>p \<in> set w. (97 \<le> p \<and> p \<le> 122) \<or> p = 32"
  by code_simp

lemma extra_cases_ascii:
  "p < 128 \<Longrightarrow> extra_cases p = (if p = 105 then [0x131] else if p = 115 then [0x17F] else [])"
  by (auto simp: extra_cases_def)

lemma tolower_eq_letter:
  assumes "ignorecase_data U" and "97 \<le> p" and "p \<le> 122"
  shows "tolower U c = p \<longleftrightarrow>
         c = p \<or> c = p - 32 \<or> (p = 105 \<and> c = 0x130) \<or> (p = 107 \<and> c = 0x212A)"
proof (cases "c < 128")
  case True
  with assms(1) have "tolower U c = ascii_lower c" by (simp add: ignorecase_data_def)
  with True assms(2,3) show ?thesis by (auto simp: ascii_lower_def)
next
  case False
  from assms(1) have non: "tolower U c < 128 \<Longrightarrow> c = 0x130 \<or> c = 0x212A"
    and i: "tolower U 0x130 = 0x69" and k: "tolower U 0x212A = 0x6B"
    using False by (auto simp: ignorecase_data_def)
  show ?thesis
  proof
    assume e: "tolower U c = p"
    with assms(3) have "tolower U c < 128" by simp
    then have "c = 0x130 \<or> c = 0x212A" by (rule non)
    with e i k show "c = p \<or> c = p - 32 \<or> (p = 105 \<and> c = 0x130) \<or> (p = 107 \<and> c = 0x212A)"
      by auto
  next
    assume "c = p \<or> c = p - 32 \<or> (p = 105 \<and> c = 0x130) \<or> (p = 107 \<and> c = 0x212A)"
    with False assms(3) i k show "tolower U c = p" by auto
  qed
qed

lemma lit_match_letter:
  assumes "ignorecase_data U" and "97 \<le> p" and "p \<le> 122"
  shows "lit_match U True p c \<longleftrightarrow> c \<in> set (ignorecase_chars p)"
proof -
  from assms have "tolower U p = p" "toupper U p = p - 32"
    by (simp_all add: ignorecase_data_def ascii_lower_def ascii_upper_def)
  moreover from assms(2) have "p \<noteq> p - 32" by arith
  ultimately have m: "lit_match U True p c \<longleftrightarrow> tolower U c \<in> set (p # extra_cases p)"
    by (simp add: lit_match_def iscased_def)
  from assms(1) have d: "tolower U c = 0x131 \<longleftrightarrow> c = 0x131" "tolower U c = 0x17F \<longleftrightarrow> c = 0x17F"
    by (simp_all add: ignorecase_data_def)
  from assms(3) have x: "extra_cases p = (if p = 105 then [0x131] else if p = 115 then [0x17F] else [])"
    by (simp add: extra_cases_ascii)
  show ?thesis
    using assms(2,3)
    by (auto simp: m x d tolower_eq_letter [OF assms] ignorecase_chars_def)
qed

lemma lit_match_space:
  assumes "ignorecase_data U"
  shows "lit_match U True 32 c \<longleftrightarrow> c \<in> set (ignorecase_chars 32)"
proof -
  from assms have "tolower U 32 = 32" "toupper U 32 = 32"
    by (simp_all add: ignorecase_data_def ascii_lower_def ascii_upper_def)
  then show ?thesis
    by (simp add: lit_match_def iscased_def ignorecase_chars_def)
qed

lemma lit_match_form:
  assumes "ignorecase_data U" and "w \<in> set table_header_forms"
  shows "list_all2 (\<lambda>c p. lit_match U True p c) u w \<longleftrightarrow>
         list_all2 (\<lambda>c p. c \<in> set (ignorecase_chars p)) u w"
proof -
  have eq: "lit_match U True p c \<longleftrightarrow> c \<in> set (ignorecase_chars p)" if "p \<in> set w" for p c
  proof -
    from that assms(2) table_header_forms_alphabet have "(97 \<le> p \<and> p \<le> 122) \<or> p = 32"
      by blast
    then show ?thesis
      using lit_match_letter [OF assms(1)] lit_match_space [OF assms(1)] by blast
  qed
  show ?thesis
  proof
    assume "list_all2 (\<lambda>c p. lit_match U True p c) u w"
    then show "list_all2 (\<lambda>c p. c \<in> set (ignorecase_chars p)) u w"
      by (rule list.rel_mono_strong) (simp add: eq)
  next
    assume "list_all2 (\<lambda>c p. c \<in> set (ignorecase_chars p)) u w"
    then show "list_all2 (\<lambda>c p. lit_match U True p c) u w"
      by (rule list.rel_mono_strong) (simp add: eq)
  qed
qed

lemma re_run_Eol_nonempty:
  "re_run U ic Eol st \<noteq> [] \<longleftrightarrow> snd st = [] \<or> snd st = [10]"
  by (cases st) simp

lemma re_match_table_name_re_split:
  assumes "ignorecase_data U"
  shows "re_match U True table_name_re s \<longleftrightarrow>
     (\<exists>u v. s = u @ v \<and> recognized_header u \<and> (v = [] \<or> v = [10]))"
proof -
  have "re_match U True table_name_re s \<longleftrightarrow>
      (\<exists>st \<in> set (re_run U True table_name_body (0, s)). snd st = [] \<or> snd st = [10])"
    by (simp add: re_match_def table_name_re_def concat_eq_Nil_conv re_run_Eol_nonempty)
  also have "\<dots> \<longleftrightarrow> (\<exists>u v. s = u @ v \<and>
      (\<exists>w \<in> set table_header_forms. list_all2 (\<lambda>c p. lit_match U True p c) u w) \<and>
      (v = [] \<or> v = [10]))"
    by (auto simp: re_run_words [OF anchor_free_table_name_body] re_words_table_name_body)
  also have "\<dots> \<longleftrightarrow> (\<exists>u v. s = u @ v \<and> recognized_header u \<and> (v = [] \<or> v = [10]))"
    using lit_match_form [OF assms] by (simp add: recognized_header_def list_ex_iff)
  finally show ?thesis .
qed

lemma re_match_table_name_re:
  assumes "ignorecase_data U"
  shows "re_match U True table_name_re s \<longleftrightarrow> recognized_header s \<or> recognized_before_newline s"
proof -
  have "(\<exists>u v. s = u @ v \<and> recognized_header u \<and> (v = [] \<or> v = [10])) \<longleftrightarrow>
        recognized_header s \<or> recognized_before_newline s"
  proof
    assume "\<exists>u v. s = u @ v \<and> recognized_header u \<and> (v = [] \<or> v = [10])"
    then obtain u v where "s = u @ v" "recognized_header u" "v = [] \<or> v = [10]" by blast
    then show "recognized_header s \<or> recognized_before_newline s"
      by (auto simp: recognized_before_newline_def)
  next
    assume "recognized_header s \<or> recognized_before_newline s"
    then show "\<exists>u v. s = u @ v \<and> recognized_header u \<and> (v = [] \<or> v = [10])"
    proof
      assume "recognized_header s"
      then have "s = s @ [] \<and> recognized_header s \<and> ([] = [] \<or> [] = [10::nat])" by simp
      then show ?thesis by blast
    next
      assume r: "recognized_before_newline s"
      then have "s = butlast s @ [10]"
        by (metis append_butlast_last_id recognized_before_newline_def)
      with r show ?thesis by (auto simp: recognized_before_newline_def)
    qed
  qed
  then show ?thesis by (simp add: re_match_table_name_re_split [OF assms])
qed

lemma invalid_tables_char:
  "invalid_tables U ts rep =
     rep @ map (\<lambda>t. \<lparr>severity = WARNING, message = unknown_table_message (table_name t),
                      linenumber = table_linenumber t\<rparr>)
             (filter (\<lambda>t. \<not> re_match U True table_name_re (table_name t)) ts)"
  by (induction ts arbitrary: rep) (simp_all add: report_def)

section \<open>What a rule appends does not depend on the findings collected before\<close>

lemma curdir_rows_frame:
  "curdir_rows rs rep = (rep @ fst (curdir_rows rs []), snd (curdir_rows rs []))"
proof (induction rs arbitrary: rep)
  case Nil
  then show ?case by simp
next
  case (Cons r rs)
  have ih: "rep' \<noteq> [] \<Longrightarrow>
      curdir_rows rs rep' = (rep' @ fst (curdir_rows rs []), snd (curdir_rows rs []))" for rep'
    by (rule Cons.IH)
  show ?case
    using Cons.IH [of rep]
    by (auto simp: ih report_def split: sum.splits)
qed

lemma curdir_tables_frame:
  "curdir_tables ts rep = (rep @ fst (curdir_tables ts []), snd (curdir_tables ts []))"
proof (induction ts arbitrary: rep)
  case Nil
  then show ?case by simp
next
  case (Cons t ts)
  have ih: "curdir_tables ts rep' = (rep' @ fst (curdir_tables ts []), snd (curdir_tables ts []))" for rep'
    by (rule Cons.IH)
  obtain out err where r0: "curdir_rows (rows t) [] = (out, err)"
    by (cases "curdir_rows (rows t) []")
  then have r1: "curdir_rows (rows t) rep = (rep @ out, err)"
    using curdir_rows_frame [of "rows t" rep] by simp
  show ?case
  proof (cases "isinstance_SettingTable t")
    case False
    then show ?thesis using ih [of rep] by simp
  next
    case True
    show ?thesis
    proof (cases err)
      case None
      then show ?thesis
        using True r0 r1 ih [of "rep @ out"] ih [of out] by simp
    next
      case (Some e)
      then show ?thesis
        using True r0 r1 by simp
    qed
  qed
qed

lemma rule_apply_frame:
  "rule_apply U r d rep = (rep @ fst (rule_apply U r d []), snd (rule_apply U r d []))"
proof (cases r)
  case RequiredRobotFileSuffxAndFolder
  then show ?thesis
    by (simp add: RequiredRobotFileSuffxAndFolder_apply_def Let_def report_def)
next
  case RequirdNoCurdirInImporting
  then show ?thesis
    using curdir_tables_frame [of "suite_tables d" rep]
    by (simp add: RequirdNoCurdirInImporting_apply_def)
next
  case RequiredAutherInfo
  then show ?thesis
    by (simp add: RequiredAutherInfo_apply_def author_tables_char [of _ _ rep]
          author_tables_char [of _ _ "[]"])
next
  case PeriodInSuiteName
  then show ?thesis
    by (simp add: PeriodInSuiteName_apply_def report_def)
next
  case InvalidTable
  then show ?thesis
    by (simp add: InvalidTable_apply_def invalid_tables_char [of _ _ rep]
          invalid_tables_char [of _ _ "[]"])
next
  case DuplicateKeywordNames
  then show ?thesis
    by (simp add: DuplicateKeywordNames_apply_def duplicate_keywords_char [of _ _ _ rep]
          duplicate_keywords_char [of _ _ _ "[]"])
next
  case DuplicateTestNames
  then show ?thesis
    by (simp add: DuplicateTestNames_apply_def duplicate_testcases_char [of _ _ _ rep]
          duplicate_testcases_char [of _ _ _ "[]"])
next
  case RequireSuiteDocumentation
  then show ?thesis
    by (simp add: RequireSuiteDocumentation_apply_def report_def split: flow.splits)
next
  case (TooManyTestCases m)
  then show ?thesis
    by (simp add: TooManyTestCases_apply_def report_def Let_def split: flow.splits sum.splits)
qed

lemma run_rules_frame:
  "run_rules U rs d (rep, faults) =
     (rep @ fst (run_rules U rs d ([], [])), faults @ snd (run_rules U rs d ([], [])))"
proof (induction rs arbitrary: rep faults)
  case Nil
  then show ?case by simp
next
  case (Cons r rs)
  have ih: "run_rules U rs d (rep', faults') =
     (rep' @ fst (run_rules U rs d ([], [])), faults' @ snd (run_rules U rs d ([], [])))" for rep' faults'
    by (rule Cons.IH)
  obtain out err where r0: "rule_apply U r d [] = (out, err)"
    by (cases "rule_apply U r d []")
  then have r1: "rule_apply U r d rep = (rep @ out, err)"
    using rule_apply_frame [of U r d rep] by simp
  show ?case
  proof (cases err)
    case None
    then show ?thesis
      using r0 r1 ih [of "rep @ out" faults] ih [of out "[]"] by simp
  next
    case (Some e)
    then show ?thesis
      using r0 r1 ih [of "rep @ out" "faults @ [(r, e)]"] ih [of out "[(r, e)]"] by simp
  qed
qed

section \<open>The example case data has the properties the theorems assume\<close>

lemma ucd_part_ascii_case_data: "ascii_case_data ucd_part"
  by (auto simp: ascii_case_data_def ucd_part_def part_tolower_def ascii_lower_def ascii_letter_def)

lemma ucd_part_ignorecase_data: "ignorecase_data ucd_part"
  by (auto simp: ignorecase_data_def ucd_part_def part_tolower_def part_toupper_def ascii_lower_def ascii_upper_def)

section \<open>Deciding whether two names differ by separators and a relation on characters\<close>

lemma sep_variant_of_filter:
  "list_all2 R (filter (\<lambda>c. \<not> is_sep c) x) (filter (\<lambda>c. \<not> is_sep c) y) \<Longrightarrow> sep_variant R x y"
proof (induction x arbitrary: y)
  case Nil
  then have "filter (\<lambda>c. \<not> is_sep c) y = []" by simp
  then have "list_all is_sep y" by (induction y) (auto split: if_splits)
  then show ?case by (induction y) (auto intro: sep_variant.intros)
next
  case (Cons a x)
  show ?case
  proof (cases "is_sep a")
    case True
    with Cons show ?thesis by (auto intro: sep_variant.intros)
  next
    case False
    from Cons.prems False show ?thesis
    proof (induction y)
      case Nil
      then show ?case by simp
    next
      case (Cons b y)
      show ?case
      proof (cases "is_sep b")
        case True
        with Cons show ?thesis by (auto intro: sep_variant.intros)
      next
        case nb: False
        with Cons.prems have "R a b"
          and "list_all2 R (filter (\<lambda>c. \<not> is_sep c) x) (filter (\<lambda>c. \<not> is_sep c) y)"
          by auto
        with \<open>\<not> is_sep a\<close> nb Cons.prems show ?thesis
          using \<open>\<And>y. list_all2 R (filter (\<lambda>c. \<not> is_sep c) x) (filter (\<lambda>c. \<not> is_sep c) y) \<Longrightarrow> sep_variant R x y\<close>
          by (auto intro: sep_variant.intros)
      qed
    qed
  qed
qed

lemma sep_variant_iff:
  "sep_variant R x y \<longleftrightarrow>
   list_all2 R (filter (\<lambda>c. \<not> is_sep c) x) (filter (\<lambda>c. \<not> is_sep c) y)"
  using sep_variant_filter sep_variant_of_filter by blast

section \<open>The claims\<close>

text \<open>
  C1: for every document, the duplicate-keyword rule walks the keywords in order and the
  duplicate-test-case rule walks the test cases in order, each with a seen-list of its own.
  The entry at index \<open>i\<close> is reported, at its own line number, exactly when its normalized
  name is the normalized name of an entry at a smaller index; so a first occurrence is never
  reported. For the keywords "Foo", "foo_bar", "FOO" (at any lines) the only finding is the
  one at the third entry's line; this instance uses the lowercase of the ASCII letters, which
  is the one fact about the character database it needs.
\<close>

theorem duplicate_rules_report_exactly_later_occurrences:
  "DuplicateKeywordNames_apply U d [] =
     (map (\<lambda>i. \<lparr>severity = ERROR,
                 message = ascii ''Duplicate keyword name '' @ [39] @ kw_name (suite_keywords d ! i) @ [39],
                 linenumber = kw_linenumber (suite_keywords d ! i)\<rparr>)
        (filter (\<lambda>i. normalize_name U (kw_name (suite_keywords d ! i)) \<in>
                       set (map (\<lambda>k. normalize_name U (kw_name k)) (take i (suite_keywords d))))
           [0..<length (suite_keywords d)]),
      None)
   \<and> DuplicateTestNames_apply U d [] =
     (map (\<lambda>i. \<lparr>severity = ERROR,
                 message = ascii ''Duplicate testcase name '' @ [39] @ tc_name (suite_testcases d ! i) @ [39],
                 linenumber = tc_linenumber (suite_testcases d ! i)\<rparr>)
        (filter (\<lambda>i. normalize_name U (tc_name (suite_testcases d ! i)) \<in>
                       set (map (\<lambda>k. normalize_name U (tc_name k)) (take i (suite_testcases d))))
           [0..<length (suite_testcases d)]),
      None)
   \<and> (ascii_case_data U \<longrightarrow>
       DuplicateKeywordNames_apply
         U (d\<lparr>suite_keywords :=
              [\<lparr>kw_name = ascii ''Foo'', kw_linenumber = l1\<rparr>,
               \<lparr>kw_name = ascii ''foo_bar'', kw_linenumber = l2\<rparr>,
               \<lparr>kw_name = ascii ''FOO'', kw_linenumber = l3\<rparr>]\<rparr>) [] =
       ([\<lparr>severity = ERROR,
          message = ascii ''Duplicate keyword name '' @ [39] @ ascii ''FOO'' @ [39],
          linenumber = l3\<rparr>], None))"
proof -
  have kw: "DuplicateKeywordNames_apply U d [] =
     (map (\<lambda>i. \<lparr>severity = ERROR,
                 message = ascii ''Duplicate keyword name '' @ [39] @ kw_name (suite_keywords d ! i) @ [39],
                 linenumber = kw_linenumber (suite_keywords d ! i)\<rparr>)
        (filter (\<lambda>i. normalize_name U (kw_name (suite_keywords d ! i)) \<in>
                       set (map (\<lambda>k. normalize_name U (kw_name k)) (take i (suite_keywords d))))
           [0..<length (suite_keywords d)]),
      None)"
    by (simp add: DuplicateKeywordNames_apply_def duplicate_keywords_char
          duplicate_keyword_message_def)
  have tc: "DuplicateTestNames_apply U d [] =
     (map (\<lambda>i. \<lparr>severity = ERROR,
                 message = ascii ''Duplicate testcase name '' @ [39] @ tc_name (suite_testcases d ! i) @ [39],
                 linenumber = tc_linenumber (suite_testcases d ! i)\<rparr>)
        (filter (\<lambda>i. normalize_name U (tc_name (suite_testcases d ! i)) \<in>
                       set (map (\<lambda>k. normalize_name U (tc_name k)) (take i (suite_testcases d))))
           [0..<length (suite_testcases d)]),
      None)"
    by (simp add: DuplicateTestNames_apply_def duplicate_testcases_char
          duplicate_testcase_message_def)
  have n: "normalize_name U (ascii ''Foo'') = ascii ''foo''"
    "normalize_name U (ascii ''foo_bar'') = ascii ''foobar''"
    "normalize_name U (ascii ''FOO'') = ascii ''foo''" if h: "ascii_case_data U"
  proof -
    have a: "list_all (\<lambda>c. c < 128) (ascii ''Foo'')" "list_all (\<lambda>c. c < 128) (ascii ''foo_bar'')"
      "list_all (\<lambda>c. c < 128) (ascii ''FOO'')"
      by code_simp+
    have b: "map ascii_lower (filter (\<lambda>c. \<not> is_sep c) (ascii ''Foo'')) = ascii ''foo''"
      "map ascii_lower (filter (\<lambda>c. \<not> is_sep c) (ascii ''foo_bar'')) = ascii ''foobar''"
      "map ascii_lower (filter (\<lambda>c. \<not> is_sep c) (ascii ''FOO'')) = ascii ''foo''"
      by code_simp+
    show "normalize_name U (ascii ''Foo'') = ascii ''foo''"
      using normalize_name_ascii [OF h a(1)] b(1) by (rule trans)
    show "normalize_name U (ascii ''foo_bar'') = ascii ''foobar''"
      using normalize_name_ascii [OF h a(2)] b(2) by (rule trans)
    show "normalize_name U (ascii ''FOO'') = ascii ''foo''"
      using normalize_name_ascii [OF h a(3)] b(3) by (rule trans)
  qed
  have q: "ascii ''foobar'' \<noteq> ascii ''foo''" "ascii ''foo'' \<noteq> ascii ''foobar''"
    by simp_all
  have ex: "DuplicateKeywordNames_apply
       U (d\<lparr>suite_keywords :=
            [\<lparr>kw_name = ascii ''Foo'', kw_linenumber = l1\<rparr>,
             \<lparr>kw_name = ascii ''foo_bar'', kw_linenumber = l2\<rparr>,
             \<lparr>kw_name = ascii ''FOO'', kw_linenumber = l3\<rparr>]\<rparr>) [] =
     ([\<lparr>severity = ERROR,
        message = ascii ''Duplicate keyword name '' @ [39] @ ascii ''FOO'' @ [39],
        linenumber = l3\<rparr>], None)" if h: "ascii_case_data U"
    by (simp add: DuplicateKeywordNames_apply_def n [OF h] q Let_def report_def
          duplicate_keyword_message_def)
  from kw tc ex show ?thesis by (intro conjI impI)
qed

theorem duplicate_rules_report_exactly_later_occurrences_witness:
  "ascii_case_data ucd_part
   \<and> DuplicateKeywordNames_apply
       ucd_part (example_suite\<lparr>suite_keywords :=
            [\<lparr>kw_name = ascii ''Foo'', kw_linenumber = 3\<rparr>,
             \<lparr>kw_name = ascii ''foo_bar'', kw_linenumber = 6\<rparr>,
             \<lparr>kw_name = ascii ''FOO'', kw_linenumber = 9\<rparr>]\<rparr>) [] =
     ([\<lparr>severity = ERROR,
        message = ascii ''Duplicate keyword name '' @ [39] @ ascii ''FOO'' @ [39],
        linenumber = 9\<rparr>], None)
   \<and> DuplicateTestNames_apply
     ucd_part \<lparr>suite_path = ascii ''5GC/a.robot'', suite_name = ascii ''a'', suite_tables = [], suite_keywords = [],
      suite_testcases =
        [\<lparr>tc_name = ascii ''Smoke Test'', tc_linenumber = 4\<rparr>,
         \<lparr>tc_name = ascii ''Other'', tc_linenumber = 7\<rparr>,
         \<lparr>tc_name = ascii ''smoke_test'', tc_linenumber = 9\<rparr>,
         \<lparr>tc_name = ascii ''SmokeTest'', tc_linenumber = 12\<rparr>]\<rparr> [] =
   ([\<lparr>severity = ERROR,
      message = ascii ''Duplicate testcase name '' @ [39] @ ascii ''smoke_test'' @ [39],
      linenumber = 9\<rparr>,
     \<lparr>severity = ERROR,
      message = ascii ''Duplicate testcase name '' @ [39] @ ascii ''SmokeTest'' @ [39],
      linenumber = 12\<rparr>], None)"
proof -
  let ?d = "\<lparr>suite_path = ascii ''5GC/a.robot'', suite_name = ascii ''a'', suite_tables = [], suite_keywords = [],
            suite_testcases =
              [\<lparr>tc_name = ascii ''Smoke Test'', tc_linenumber = 4\<rparr>,
               \<lparr>tc_name = ascii ''Other'', tc_linenumber = 7\<rparr>,
               \<lparr>tc_name = ascii ''smoke_test'', tc_linenumber = 9\<rparr>,
               \<lparr>tc_name = ascii ''SmokeTest'', tc_linenumber = 12\<rparr>]\<rparr>"
  have h: "ascii_case_data ucd_part"
    by (rule ucd_part_ascii_case_data)
  have r: "(map (\<lambda>i. \<lparr>severity = ERROR,
                 message = ascii ''Duplicate testcase name '' @ [39] @ tc_name (suite_testcases ?d ! i) @ [39],
                 linenumber = tc_linenumber (suite_testcases ?d ! i)\<rparr>)
        (filter (\<lambda>i. normalize_name ucd_part (tc_name (suite_testcases ?d ! i)) \<in>
                       set (map (\<lambda>k. normalize_name ucd_part (tc_name k)) (take i (suite_testcases ?d))))
           [0..<length (suite_testcases ?d)]),
      None :: error option) =
   ([\<lparr>severity = ERROR,
      message = ascii ''Duplicate testcase name '' @ [39] @ ascii ''smoke_test'' @ [39],
      linenumber = 9\<rparr>,
     \<lparr>severity = ERROR,
      message = ascii ''Duplicate testcase name '' @ [39] @ ascii ''SmokeTest'' @ [39],
      linenumber = 12\<rparr>], None)"
    by code_simp
  note t = duplicate_rules_report_exactly_later_occurrences [of ucd_part ?d 3 6 9]
  from t [THEN conjunct2, THEN conjunct1] r
  have a: "DuplicateTestNames_apply ucd_part ?d [] =
   ([\<lparr>severity = ERROR,
      message = ascii ''Duplicate testcase name '' @ [39] @ ascii ''smoke_test'' @ [39],
      linenumber = 9\<rparr>,
     \<lparr>severity = ERROR,
      message = ascii ''Duplicate testcase name '' @ [39] @ ascii ''SmokeTest'' @ [39],
      linenumber = 12\<rparr>], None)"
    by (rule trans)
  note u = duplicate_rules_report_exactly_later_occurrences [of ucd_part example_suite 3 6 9]
  from u [THEN conjunct2, THEN conjunct2] h
  have b: "DuplicateKeywordNames_apply
       ucd_part (example_suite\<lparr>suite_keywords :=
            [\<lparr>kw_name = ascii ''Foo'', kw_linenumber = 3\<rparr>,
             \<lparr>kw_name = ascii ''foo_bar'', kw_linenumber = 6\<rparr>,
             \<lparr>kw_name = ascii ''FOO'', kw_linenumber = 9\<rparr>]\<rparr>) [] =
     ([\<lparr>severity = ERROR,
        message = ascii ''Duplicate keyword name '' @ [39] @ ascii ''FOO'' @ [39],
        linenumber = 9\<rparr>], None)"
    by (rule mp)
  from h b a show ?thesis by (intro conjI)
qed

text \<open>
  C2, as amended: for every document and every \<open>max_allowed\<close>, the too-many-test-cases rule
  reports nothing if some settings-table row's first cell case-insensitively equals
  "test template", whatever the number of test cases. For every document in which each
  settings-table row has at least one cell and for every \<open>max_allowed\<close> that is not
  negative (the default is 10), the rule raises nothing; without such a row, if the number of
  test cases strictly exceeds \<open>max_allowed\<close> it reports exactly one finding, a warning whose
  message contains both the actual count and \<open>max_allowed\<close>, anchored at the line number
  of the test case at index \<open>max_allowed\<close> (0-based) of the ordered sequence; otherwise it
  reports nothing.
\<close>

theorem too_many_rule_reports_first_excess_testcase:
  "(has_first_cell U (ascii ''test template'') d \<longrightarrow> fst (TooManyTestCases_apply U max_allowed d []) = [])
   \<and> (rows_nonempty d \<and> 0 \<le> max_allowed \<longrightarrow>
        TooManyTestCases_apply U max_allowed d [] =
          (if has_first_cell U (ascii ''test template'') d then []
           else if int (length (suite_testcases d)) > max_allowed
           then [\<lparr>severity = WARNING,
                  message = ascii ''Too many test cases ('' @ str_int (int (length (suite_testcases d))) @
                            ascii '' > '' @ str_int max_allowed @ ascii '') in test suite'',
                  linenumber = tc_linenumber (suite_testcases d ! nat max_allowed)\<rparr>]
           else [],
           None))
   \<and> str_contains (str_int (int n))
         (ascii ''Too many test cases ('' @ str_int (int n) @ ascii '' > '' @ str_int max_allowed @ ascii '') in test suite'')
   \<and> str_contains (str_int max_allowed)
         (ascii ''Too many test cases ('' @ str_int (int n) @ ascii '' > '' @ str_int max_allowed @ ascii '') in test suite'')
   \<and> default_max_allowed = 10"
proof -
  have a: "fst (TooManyTestCases_apply U max_allowed d []) = []" if "has_first_cell U (ascii ''test template'') d"
  proof -
    from that have "template_tables U (suite_tables d) \<noteq> Next"
      by (simp add: has_first_cell_def setting_rows_def setting_tables_def template_tables_found)
    then show ?thesis
      by (simp add: TooManyTestCases_apply_def split: flow.splits)
  qed
  have b: "TooManyTestCases_apply U max_allowed d [] =
          (if has_first_cell U (ascii ''test template'') d then []
           else if int (length (suite_testcases d)) > max_allowed
           then [\<lparr>severity = WARNING,
                  message = ascii ''Too many test cases ('' @ str_int (int (length (suite_testcases d))) @
                            ascii '' > '' @ str_int max_allowed @ ascii '') in test suite'',
                  linenumber = tc_linenumber (suite_testcases d ! nat max_allowed)\<rparr>]
           else [],
           None)" if "rows_nonempty d \<and> 0 \<le> max_allowed"
  proof -
    from that have ne: "list_all (\<lambda>r. cells r \<noteq> [])
        (concat (map rows (filter isinstance_SettingTable (suite_tables d))))"
      by (simp add: rows_nonempty_def setting_rows_def setting_tables_def)
    have tt: "template_tables U (suite_tables d) =
        (if has_first_cell U (ascii ''test template'') d then Return else Next)"
      unfolding has_first_cell_def setting_rows_def setting_tables_def
      by (rule template_tables_char [OF ne])
    from that have m: "0 \<le> max_allowed" by simp
    show ?thesis
      using m
      by (simp add: TooManyTestCases_apply_def tt Let_def list_get_nonneg report_def
            too_many_message_def)
  qed
  have c: "str_contains (str_int (int n))
         (ascii ''Too many test cases ('' @ str_int (int n) @ ascii '' > '' @ str_int max_allowed @ ascii '') in test suite'')"
    by (rule str_contains_mid)
  have "str_contains (str_int max_allowed)
         ((ascii ''Too many test cases ('' @ str_int (int n) @ ascii '' > '') @ str_int max_allowed @ ascii '') in test suite'')"
    by (rule str_contains_mid)
  then have e: "str_contains (str_int max_allowed)
         (ascii ''Too many test cases ('' @ str_int (int n) @ ascii '' > '' @ str_int max_allowed @ ascii '') in test suite'')"
    by simp
  have f: "default_max_allowed = 10" by (simp add: default_max_allowed_def)
  from a b c e f show ?thesis by blast
qed

theorem too_many_rule_reports_first_excess_testcase_witness:
  "rows_nonempty
     (mk_suite [settings_table 1 [mk_row 2 [''Library'', ''Collections'']]]
        [mk_testcase ''T1'' 11, mk_testcase ''T2'' 12, mk_testcase ''T3'' 13, mk_testcase ''T4'' 14,
         mk_testcase ''T5'' 15, mk_testcase ''T6'' 16, mk_testcase ''T7'' 17, mk_testcase ''T8'' 18,
         mk_testcase ''T9'' 19, mk_testcase ''T10'' 20, mk_testcase ''T11'' 21])
   \<and> (0::int) \<le> default_max_allowed
   \<and> TooManyTestCases_apply ucd_part default_max_allowed
       (mk_suite [settings_table 1 [mk_row 2 [''Library'', ''Collections'']]]
          [mk_testcase ''T1'' 11, mk_testcase ''T2'' 12, mk_testcase ''T3'' 13, mk_testcase ''T4'' 14,
           mk_testcase ''T5'' 15, mk_testcase ''T6'' 16, mk_testcase ''T7'' 17, mk_testcase ''T8'' 18,
           mk_testcase ''T9'' 19, mk_testcase ''T10'' 20, mk_testcase ''T11'' 21]) [] =
     ([\<lparr>severity = WARNING, message = ascii ''Too many test cases (11 > 10) in test suite'',
        linenumber = 21\<rparr>], None)
   \<and> has_first_cell ucd_part (ascii ''test template'')
       (mk_suite [settings_table 1 [mk_row 2 [''Test Template'', ''Check Login'']]]
          [mk_testcase ''T1'' 11, mk_testcase ''T2'' 12])
   \<and> fst (TooManyTestCases_apply ucd_part 1
       (mk_suite [settings_table 1 [mk_row 2 [''Test Template'', ''Check Login'']]]
          [mk_testcase ''T1'' 11, mk_testcase ''T2'' 12]) []) = []"
proof -
  let ?d = "mk_suite [settings_table 1 [mk_row 2 [''Library'', ''Collections'']]]
        [mk_testcase ''T1'' 11, mk_testcase ''T2'' 12, mk_testcase ''T3'' 13, mk_testcase ''T4'' 14,
         mk_testcase ''T5'' 15, mk_testcase ''T6'' 16, mk_testcase ''T7'' 17, mk_testcase ''T8'' 18,
         mk_testcase ''T9'' 19, mk_testcase ''T10'' 20, mk_testcase ''T11'' 21]"
  let ?e = "mk_suite [settings_table 1 [mk_row 2 [''Test Template'', ''Check Login'']]]
          [mk_testcase ''T1'' 11, mk_testcase ''T2'' 12]"
  have h: "rows_nonempty ?d" by code_simp
  have m: "(0::int) \<le> default_max_allowed" by code_simp
  have g: "has_first_cell ucd_part (ascii ''test template'') ?e" by code_simp
  have r: "(if has_first_cell ucd_part (ascii ''test template'') ?d then []
           else if int (length (suite_testcases ?d)) > default_max_allowed
           then [\<lparr>severity = WARNING,
                  message = ascii ''Too many test cases ('' @ str_int (int (length (suite_testcases ?d))) @
                            ascii '' > '' @ str_int default_max_allowed @ ascii '') in test suite'',
                  linenumber = tc_linenumber (suite_testcases ?d ! nat default_max_allowed)\<rparr>]
           else [],
           None :: error option) =
     ([\<lparr>severity = WARNING, message = ascii ''Too many test cases (11 > 10) in test suite'',
        linenumber = 21\<rparr>], None)"
    by code_simp
  note t = too_many_rule_reports_first_excess_testcase [of ucd_part ?d default_max_allowed 0]
  note u = too_many_rule_reports_first_excess_testcase [of ucd_part ?e 1 0]
  from h m have hm: "rows_nonempty ?d \<and> 0 \<le> default_max_allowed" by (rule conjI)
  from t [THEN conjunct2, THEN conjunct1] hm
  have "TooManyTestCases_apply ucd_part default_max_allowed ?d [] =
          (if has_first_cell ucd_part (ascii ''test template'') ?d then []
           else if int (length (suite_testcases ?d)) > default_max_allowed
           then [\<lparr>severity = WARNING,
                  message = ascii ''Too many test cases ('' @ str_int (int (length (suite_testcases ?d))) @
                            ascii '' > '' @ str_int default_max_allowed @ ascii '') in test suite'',
                  linenumber = tc_linenumber (suite_testcases ?d ! nat default_max_allowed)\<rparr>]
           else [],
           None)"
    by (rule mp)
  from this r have 1: "TooManyTestCases_apply ucd_part default_max_allowed ?d [] =
     ([\<lparr>severity = WARNING, message = ascii ''Too many test cases (11 > 10) in test suite'',
        linenumber = 21\<rparr>], None)"
    by (rule trans)
  from u [THEN conjunct1] g have 2: "fst (TooManyTestCases_apply ucd_part 1 ?e []) = []"
    by (rule mp)
  from h m 1 g 2 show ?thesis by (intro conjI)
qed

text \<open>
  The claim as first stated (for every document and every \<open>max_allowed\<close>) fails in two
  places. A settings-table row without cells makes the template scan raise, so one test
  case against \<open>max_allowed = 0\<close> gets no finding. And a negative \<open>max_allowed\<close> is
  exceeded by every count, but \<^verbatim>\<open>testcases[max_allowed]\<close> then counts from the end:
  with no test case it raises, and with two test cases and \<open>max_allowed = -1\<close> the finding
  is anchored at the last test case.
\<close>

theorem too_many_rule_counterexample:
  "\<not> has_first_cell ucd_part (ascii ''test template'') (mk_suite [settings_table 1 [mk_row 2 []]] [mk_testcase ''T1'' 5])
   \<and> TooManyTestCases_apply ucd_part 0 (mk_suite [settings_table 1 [mk_row 2 []]] [mk_testcase ''T1'' 5]) [] =
       ([], Some IndexError)
   \<and> TooManyTestCases_apply ucd_part (- 1) (mk_suite [] []) [] = ([], Some IndexError)
   \<and> TooManyTestCases_apply ucd_part (- 1) (mk_suite [] [mk_testcase ''T1'' 5, mk_testcase ''T2'' 9]) [] =
       ([\<lparr>severity = WARNING, message = ascii ''Too many test cases (2 > -1) in test suite'',
          linenumber = 9\<rparr>], None)"
  by code_simp

text \<open>
  C3, as amended: for every document the author/contact rule treats each settings table on
  its own. For each settings table, in source order, it scans all cells of all rows of that
  table with case-insensitive substring matching, and after that table it reports an
  author-missing finding if no cell of the table contains an author-indicating token and
  then a contact-missing finding if no cell of the table contains a contact-indicating token,
  both at line 1. So there is at most one author-missing and at most one contact-missing
  finding per settings table, and none for a document without settings tables.
\<close>

theorem author_rule_scans_each_settings_table:
  "RequiredAutherInfo_apply U d [] =
     (concat (map (\<lambda>t. (if mentions U [ascii ''author'', ascii ''name'', ascii ''modified''] t then []
                          else [\<lparr>severity = ERROR, message = ascii ''Author name is needed'', linenumber = 1\<rparr>]) @
                         (if mentions U [ascii ''contact'', ascii ''mail'', ascii ''team''] t then []
                          else [\<lparr>severity = ERROR, message = ascii ''Contact list is needed'', linenumber = 1\<rparr>]))
                (setting_tables d)),
      None)"
  unfolding RequiredAutherInfo_apply_def author_tables_char setting_tables_def
    author_missing_def contact_missing_def author_tokens_def contact_tokens_def
  by simp

theorem author_rule_scans_each_settings_table_witness:
  "RequiredAutherInfo_apply
     ucd_part (mk_suite [settings_table 1 [mk_row 2 [''Documentation'', ''Modified: 1/1/2020 Jane Doe'']]] []) [] =
   ([\<lparr>severity = ERROR, message = ascii ''Contact list is needed'', linenumber = 1\<rparr>], None)"
proof -
  have r: "(concat (map (\<lambda>t. (if mentions ucd_part [ascii ''author'', ascii ''name'', ascii ''modified''] t then []
                          else [\<lparr>severity = ERROR, message = ascii ''Author name is needed'', linenumber = 1\<rparr>]) @
                         (if mentions ucd_part [ascii ''contact'', ascii ''mail'', ascii ''team''] t then []
                          else [\<lparr>severity = ERROR, message = ascii ''Contact list is needed'', linenumber = 1\<rparr>]))
                (setting_tables (mk_suite
                   [settings_table 1 [mk_row 2 [''Documentation'', ''Modified: 1/1/2020 Jane Doe'']]] []))),
            None :: error option) =
     ([\<lparr>severity = ERROR, message = ascii ''Contact list is needed'', linenumber = 1\<rparr>], None)"
    by code_simp
  from author_rule_scans_each_settings_table
    [of ucd_part "mk_suite [settings_table 1 [mk_row 2 [''Documentation'', ''Modified: 1/1/2020 Jane Doe'']]] []"]
    r
  show ?thesis by (rule trans)
qed

text \<open>
  The claim as first stated (one scan and one pair of flags per document) fails: a document
  without a settings table gets no finding although neither flag was ever set; a document
  whose first settings table names an author and a contact still gets both findings for a
  second settings table that names neither; and two settings tables without tokens give two
  author-missing and two contact-missing findings.
\<close>

theorem author_rule_per_document_counterexample:
  "RequiredAutherInfo_apply ucd_part (mk_suite [other_table (ascii ''Test Cases'') 1 []] []) [] = ([], None)
   \<and> RequiredAutherInfo_apply
       ucd_part (mk_suite [settings_table 1 [mk_row 2 [''Documentation'', ''Author: Jane, contact: team-a'']],
                  settings_table 4 [mk_row 5 [''Library'', ''Collections'']]] []) [] =
     ([\<lparr>severity = ERROR, message = ascii ''Author name is needed'', linenumber = 1\<rparr>,
       \<lparr>severity = ERROR, message = ascii ''Contact list is needed'', linenumber = 1\<rparr>], None)
   \<and> RequiredAutherInfo_apply
       ucd_part (mk_suite [settings_table 1 [mk_row 2 [''Library'', ''String'']],
                  settings_table 4 [mk_row 5 [''Library'', ''Collections'']]] []) [] =
     ([\<lparr>severity = ERROR, message = ascii ''Author name is needed'', linenumber = 1\<rparr>,
       \<lparr>severity = ERROR, message = ascii ''Contact list is needed'', linenumber = 1\<rparr>,
       \<lparr>severity = ERROR, message = ascii ''Author name is needed'', linenumber = 1\<rparr>,
       \<lparr>severity = ERROR, message = ascii ''Contact list is needed'', linenumber = 1\<rparr>], None)"
  by code_simp

text \<open>
  C4, as amended: for every document, the suite-documentation rule reports nothing if some
  settings-table row's first cell case-insensitively equals "documentation". For every
  document in which each settings-table row has at least one cell, it raises nothing and,
  if no settings-table row in the entire document has such a first cell, it reports exactly
  one finding, a warning anchored at the first settings table's header line number plus
  one, or at line 1 if the document contains no settings table at all.
\<close>

theorem documentation_rule_reports_once_when_missing:
  "(has_first_cell U (ascii ''documentation'') d \<longrightarrow> fst (RequireSuiteDocumentation_apply U d []) = [])
   \<and> (rows_nonempty d \<longrightarrow>
        RequireSuiteDocumentation_apply U d [] =
          (if has_first_cell U (ascii ''documentation'') d then []
           else [\<lparr>severity = WARNING, message = ascii ''No suite documentation'',
                  linenumber = (case setting_tables d of
                                  [] \<Rightarrow> 1
                                | t # ts \<Rightarrow> table_linenumber t + 1)\<rparr>],
           None))"
proof -
  have a: "fst (RequireSuiteDocumentation_apply U d []) = []" if "has_first_cell U (ascii ''documentation'') d"
  proof -
    from that have "documentation_tables U (suite_tables d) \<noteq> Next"
      by (simp add: has_first_cell_def setting_rows_def setting_tables_def
            documentation_tables_found)
    then show ?thesis
      by (simp add: RequireSuiteDocumentation_apply_def split: flow.splits)
  qed
  have b: "RequireSuiteDocumentation_apply U d [] =
          (if has_first_cell U (ascii ''documentation'') d then []
           else [\<lparr>severity = WARNING, message = ascii ''No suite documentation'',
                  linenumber = (case setting_tables d of
                                  [] \<Rightarrow> 1
                                | t # ts \<Rightarrow> table_linenumber t + 1)\<rparr>],
           None)" if "rows_nonempty d"
  proof -
    from that have ne: "list_all (\<lambda>r. cells r \<noteq> [])
        (concat (map rows (filter isinstance_SettingTable (suite_tables d))))"
      by (simp add: rows_nonempty_def setting_rows_def setting_tables_def)
    have dt: "documentation_tables U (suite_tables d) =
        (if has_first_cell U (ascii ''documentation'') d then Return else Next)"
      unfolding has_first_cell_def setting_rows_def setting_tables_def
      by (rule documentation_tables_char [OF ne])
    show ?thesis
      by (simp add: RequireSuiteDocumentation_apply_def dt first_setting_linenum_char
            setting_tables_def report_def)
  qed
  from a b show ?thesis by blast
qed

theorem documentation_rule_reports_once_when_missing_witness:
  "rows_nonempty (mk_suite [other_table (ascii ''Variables'') 1 [mk_row 2 [''${x}'', ''1'']],
                            settings_table 4 [mk_row 5 [''Library'', ''Collections'']]] [])
   \<and> RequireSuiteDocumentation_apply
       ucd_part (mk_suite [other_table (ascii ''Variables'') 1 [mk_row 2 [''${x}'', ''1'']],
                  settings_table 4 [mk_row 5 [''Library'', ''Collections'']]] []) [] =
     ([\<lparr>severity = WARNING, message = ascii ''No suite documentation'', linenumber = 5\<rparr>], None)
   \<and> has_first_cell ucd_part (ascii ''documentation'')
       (mk_suite [settings_table 1 [mk_row 2 [''Documentation'', ''does X'']]] [])
   \<and> fst (RequireSuiteDocumentation_apply
       ucd_part (mk_suite [settings_table 1 [mk_row 2 [''Documentation'', ''does X'']]] []) []) = []"
proof -
  let ?d = "mk_suite [other_table (ascii ''Variables'') 1 [mk_row 2 [''${x}'', ''1'']],
                  settings_table 4 [mk_row 5 [''Library'', ''Collections'']]] []"
  let ?e = "mk_suite [settings_table 1 [mk_row 2 [''Documentation'', ''does X'']]] []"
  have h: "rows_nonempty ?d" by code_simp
  have g: "has_first_cell ucd_part (ascii ''documentation'') ?e" by code_simp
  have r: "(if has_first_cell ucd_part (ascii ''documentation'') ?d then []
           else [\<lparr>severity = WARNING, message = ascii ''No suite documentation'',
                  linenumber = (case setting_tables ?d of
                                  [] \<Rightarrow> 1
                                | t # ts \<Rightarrow> table_linenumber t + 1)\<rparr>],
           None :: error option) =
     ([\<lparr>severity = WARNING, message = ascii ''No suite documentation'', linenumber = 5\<rparr>], None)"
    by code_simp
  note t = documentation_rule_reports_once_when_missing [of ucd_part ?d]
  note u = documentation_rule_reports_once_when_missing [of ucd_part ?e]
  from t [THEN conjunct2] h
  have "RequireSuiteDocumentation_apply ucd_part ?d [] =
          (if has_first_cell ucd_part (ascii ''documentation'') ?d then []
           else [\<lparr>severity = WARNING, message = ascii ''No suite documentation'',
                  linenumber = (case setting_tables ?d of
                                  [] \<Rightarrow> 1
                                | t # ts \<Rightarrow> table_linenumber t + 1)\<rparr>],
           None)"
    by (rule mp)
  from this r have 1: "RequireSuiteDocumentation_apply ucd_part ?d [] =
     ([\<lparr>severity = WARNING, message = ascii ''No suite documentation'', linenumber = 5\<rparr>], None)"
    by (rule trans)
  from u [THEN conjunct1] g have 2: "fst (RequireSuiteDocumentation_apply ucd_part ?e []) = []"
    by (rule mp)
  from h 1 g 2 show ?thesis by (intro conjI)
qed

text \<open>
  The claim as first stated (for every document) fails where a settings-table row has no
  cell at all: no row's first cell is "documentation", yet the rule raises on that row and
  reports nothing.
\<close>

theorem documentation_rule_empty_row_counterexample:
  "\<not> has_first_cell ucd_part (ascii ''documentation'')
       (mk_suite [settings_table 1 [mk_row 2 [], mk_row 3 [''Library'', ''Collections'']]] [])
   \<and> RequireSuiteDocumentation_apply
       ucd_part (mk_suite [settings_table 1 [mk_row 2 [], mk_row 3 [''Library'', ''Collections'']]] []) [] =
     ([], Some IndexError)"
  by code_simp

text \<open>
  C5, as amended: for every document the unknown-table-header rule reports, for each table in
  source order, exactly one finding at that table's header line if and only if the raw
  header text is not accepted by the header expression under \<^verbatim>\<open>re.IGNORECASE\<close>. The
  header is accepted exactly when it spells one of the recognized forms (setting/settings,
  metadata, case/cases optionally prefixed by "test ", keyword/keywords optionally prefixed
  by "user ", variable/variables) character by character, each letter of the form written as
  the small letter, as its capital, or, for i, as U+0130 or U+0131, for s, as the long s
  U+017F, for k, as the Kelvin sign U+212A, and each space as a space; or when it is such a
  spelling followed by one final newline (Python's \<^verbatim>\<open>$\<close> also holds just before a
  newline that ends the text). In particular the headers "Setting", "Test Cases" and
  "Keywords" produce no finding and "Configuration" produces exactly one. The statement
  uses what the character database says about the simple case mappings of the characters
  concerned.
\<close>

theorem invalid_table_reports_unrecognized_headers:
  "ignorecase_data U \<longrightarrow>
   InvalidTable_apply U d [] =
     (map (\<lambda>t. \<lparr>severity = WARNING,
                 message = ascii ''Unknown table name '' @ [39] @ table_name t @ [39],
                 linenumber = table_linenumber t\<rparr>)
        (filter (\<lambda>t. \<not> recognized_header (table_name t) \<and>
                       \<not> recognized_before_newline (table_name t))
           (suite_tables d)),
      None)
   \<and> (table_name t = ascii ''Setting'' \<or> table_name t = ascii ''Test Cases'' \<or>
       table_name t = ascii ''Keywords'' \<longrightarrow>
        InvalidTable_apply U (d\<lparr>suite_tables := [t]\<rparr>) [] = ([], None))
   \<and> (table_name t = ascii ''Configuration'' \<longrightarrow>
        InvalidTable_apply U (d\<lparr>suite_tables := [t]\<rparr>) [] =
          ([\<lparr>severity = WARNING,
             message = ascii ''Unknown table name '' @ [39] @ ascii ''Configuration'' @ [39],
             linenumber = table_linenumber t\<rparr>], None))
   \<and> (table_name t = ascii ''Sett'' @ [0x130] @ ascii ''ngs'' \<or>
       table_name t = ascii ''Sett'' @ [0x131] @ ascii ''ngs'' \<or>
       table_name t = [0x17F] @ ascii ''etting'' @ [0x17F] \<or>
       table_name t = [0x212A] @ ascii ''eywords'' \<or>
       table_name t = ascii ''VARIABLES'' @ [10] \<longrightarrow>
        InvalidTable_apply U (d\<lparr>suite_tables := [t]\<rparr>) [] = ([], None))"
proof
  assume h: "ignorecase_data U"
  have g: "\<And>d. InvalidTable_apply U d [] =
     (map (\<lambda>t. \<lparr>severity = WARNING,
                 message = ascii ''Unknown table name '' @ [39] @ table_name t @ [39],
                 linenumber = table_linenumber t\<rparr>)
        (filter (\<lambda>t. \<not> recognized_header (table_name t) \<and>
                       \<not> recognized_before_newline (table_name t))
           (suite_tables d)),
      None)"
    by (simp add: InvalidTable_apply_def invalid_tables_char re_match_table_name_re [OF h]
          unknown_table_message_def)
  have yes: "recognized_header (ascii ''Setting'')" "recognized_header (ascii ''Test Cases'')"
    "recognized_header (ascii ''Keywords'')"
    by code_simp+
  have no: "\<not> recognized_header (ascii ''Configuration'')"
    "\<not> recognized_before_newline (ascii ''Configuration'')"
    by code_simp+
  have more: "recognized_header (ascii ''Sett'' @ [0x130] @ ascii ''ngs'')"
    "recognized_header (ascii ''Sett'' @ [0x131] @ ascii ''ngs'')"
    "recognized_header ([0x17F] @ ascii ''etting'' @ [0x17F])"
    "recognized_header ([0x212A] @ ascii ''eywords'')"
    "recognized_before_newline (ascii ''VARIABLES'' @ [10])"
    by code_simp+
  have a: "table_name t = ascii ''Setting'' \<or> table_name t = ascii ''Test Cases'' \<or>
       table_name t = ascii ''Keywords'' \<longrightarrow>
        InvalidTable_apply U (d\<lparr>suite_tables := [t]\<rparr>) [] = ([], None)"
    using yes by (auto simp: g)
  have b: "table_name t = ascii ''Configuration'' \<longrightarrow>
        InvalidTable_apply U (d\<lparr>suite_tables := [t]\<rparr>) [] =
          ([\<lparr>severity = WARNING,
             message = ascii ''Unknown table name '' @ [39] @ ascii ''Configuration'' @ [39],
             linenumber = table_linenumber t\<rparr>], None)"
    using no by (auto simp: g)
  have c: "table_name t = ascii ''Sett'' @ [0x130] @ ascii ''ngs'' \<or>
       table_name t = ascii ''Sett'' @ [0x131] @ ascii ''ngs'' \<or>
       table_name t = [0x17F] @ ascii ''etting'' @ [0x17F] \<or>
       table_name t = [0x212A] @ ascii ''eywords'' \<or>
       table_name t = ascii ''VARIABLES'' @ [10] \<longrightarrow>
        InvalidTable_apply U (d\<lparr>suite_tables := [t]\<rparr>) [] = ([], None)"
  proof
    assume "table_name t = ascii ''Sett'' @ [0x130] @ ascii ''ngs'' \<or>
       table_name t = ascii ''Sett'' @ [0x131] @ ascii ''ngs'' \<or>
       table_name t = [0x17F] @ ascii ''etting'' @ [0x17F] \<or>
       table_name t = [0x212A] @ ascii ''eywords'' \<or>
       table_name t = ascii ''VARIABLES'' @ [10]"
    with more have "recognized_header (table_name t) \<or> recognized_before_newline (table_name t)"
      by metis
    then show "InvalidTable_apply U (d\<lparr>suite_tables := [t]\<rparr>) [] = ([], None)"
      by (auto simp: g)
  qed
  from g [of d] a b c
  show "InvalidTable_apply U d [] =
     (map (\<lambda>t. \<lparr>severity = WARNING,
                 message = ascii ''Unknown table name '' @ [39] @ table_name t @ [39],
                 linenumber = table_linenumber t\<rparr>)
        (filter (\<lambda>t. \<not> recognized_header (table_name t) \<and>
                       \<not> recognized_before_newline (table_name t))
           (suite_tables d)),
      None)
   \<and> (table_name t = ascii ''Setting'' \<or> table_name t = ascii ''Test Cases'' \<or>
       table_name t = ascii ''Keywords'' \<longrightarrow>
        InvalidTable_apply U (d\<lparr>suite_tables := [t]\<rparr>) [] = ([], None))
   \<and> (table_name t = ascii ''Configuration'' \<longrightarrow>
        InvalidTable_apply U (d\<lparr>suite_tables := [t]\<rparr>) [] =
          ([\<lparr>severity = WARNING,
             message = ascii ''Unknown table name '' @ [39] @ ascii ''Configuration'' @ [39],
             linenumber = table_linenumber t\<rparr>], None))
   \<and> (table_name t = ascii ''Sett'' @ [0x130] @ ascii ''ngs'' \<or>
       table_name t = ascii ''Sett'' @ [0x131] @ ascii ''ngs'' \<or>
       table_name t = [0x17F] @ ascii ''etting'' @ [0x17F] \<or>
       table_name t = [0x212A] @ ascii ''eywords'' \<or>
       table_name t = ascii ''VARIABLES'' @ [10] \<longrightarrow>
        InvalidTable_apply U (d\<lparr>suite_tables := [t]\<rparr>) [] = ([], None))"
    by (intro conjI)
qed

theorem invalid_table_reports_unrecognized_headers_witness:
  "ignorecase_data ucd_part
   \<and> InvalidTable_apply
     ucd_part (mk_suite [settings_table 1 [], other_table (ascii ''Configuration'') 4 [],
                other_table (ascii ''TEST CASE'') 7 [], other_table (ascii ''Comments'') 12 [],
                other_table (ascii ''user keywords'') 15 [],
                other_table (ascii ''Test  Cases'') 18 [],
                other_table ([0x17F] @ ascii ''etting'' @ [0x17F]) 21 [],
                other_table (ascii ''Metadata'' @ [10, 10]) 24 []] []) [] =
   ([\<lparr>severity = WARNING,
      message = ascii ''Unknown table name '' @ [39] @ ascii ''Configuration'' @ [39],
      linenumber = 4\<rparr>,
     \<lparr>severity = WARNING,
      message = ascii ''Unknown table name '' @ [39] @ ascii ''Comments'' @ [39],
      linenumber = 12\<rparr>,
     \<lparr>severity = WARNING,
      message = ascii ''Unknown table name '' @ [39] @ ascii ''Test  Cases'' @ [39],
      linenumber = 18\<rparr>,
     \<lparr>severity = WARNING,
      message = ascii ''Unknown table name '' @ [39] @ ascii ''Metadata'' @ [10, 10] @ [39],
      linenumber = 24\<rparr>], None)
   \<and> table_name (other_table (ascii ''Keywords'') 3 []) = ascii ''Keywords''
   \<and> InvalidTable_apply
       ucd_part (mk_suite [] [] \<lparr>suite_tables := [other_table (ascii ''Keywords'') 3 []]\<rparr>) [] = ([], None)
   \<and> table_name (other_table (ascii ''Configuration'') 3 []) = ascii ''Configuration''
   \<and> InvalidTable_apply
       ucd_part (mk_suite [] [] \<lparr>suite_tables := [other_table (ascii ''Configuration'') 3 []]\<rparr>) [] =
     ([\<lparr>severity = WARNING,
        message = ascii ''Unknown table name '' @ [39] @ ascii ''Configuration'' @ [39],
        linenumber = 3\<rparr>], None)
   \<and> table_name (other_table ([0x212A] @ ascii ''eywords'') 3 []) = [0x212A] @ ascii ''eywords''
   \<and> InvalidTable_apply
       ucd_part (mk_suite [] [] \<lparr>suite_tables := [other_table ([0x212A] @ ascii ''eywords'') 3 []]\<rparr>) [] =
     ([], None)"
proof -
  let ?d = "mk_suite [settings_table 1 [], other_table (ascii ''Configuration'') 4 [],
                other_table (ascii ''TEST CASE'') 7 [], other_table (ascii ''Comments'') 12 [],
                other_table (ascii ''user keywords'') 15 [],
                other_table (ascii ''Test  Cases'') 18 [],
                other_table ([0x17F] @ ascii ''etting'' @ [0x17F]) 21 [],
                other_table (ascii ''Metadata'' @ [10, 10]) 24 []] []"
  have h: "ignorecase_data ucd_part"
    by (rule ucd_part_ignorecase_data)
  have r: "(map (\<lambda>t. \<lparr>severity = WARNING,
                 message = ascii ''Unknown table name '' @ [39] @ table_name t @ [39],
                 linenumber = table_linenumber t\<rparr>)
        (filter (\<lambda>t. \<not> recognized_header (table_name t) \<and>
                       \<not> recognized_before_newline (table_name t))
           (suite_tables ?d)),
      None :: error option) =
     ([\<lparr>severity = WARNING,
      message = ascii ''Unknown table name '' @ [39] @ ascii ''Configuration'' @ [39],
      linenumber = 4\<rparr>,
     \<lparr>severity = WARNING,
      message = ascii ''Unknown table name '' @ [39] @ ascii ''Comments'' @ [39],
      linenumber = 12\<rparr>,
     \<lparr>severity = WARNING,
      message = ascii ''Unknown table name '' @ [39] @ ascii ''Test  Cases'' @ [39],
      linenumber = 18\<rparr>,
     \<lparr>severity = WARNING,
      message = ascii ''Unknown table name '' @ [39] @ ascii ''Metadata'' @ [10, 10] @ [39],
      linenumber = 24\<rparr>], None)"
    by code_simp
  have k: "table_name (other_table (ascii ''Keywords'') 3 []) = ascii ''Keywords''"
    by (simp add: other_table_def)
  have c: "table_name (other_table (ascii ''Configuration'') 3 []) = ascii ''Configuration''"
    by (simp add: other_table_def)
  have l: "table_linenumber (other_table (ascii ''Configuration'') 3 []) = 3"
    by (simp add: other_table_def)
  have n: "table_name (other_table ([0x212A] @ ascii ''eywords'') 3 []) = [0x212A] @ ascii ''eywords''"
    by (simp add: other_table_def)
  note t1 = invalid_table_reports_unrecognized_headers [of ucd_part ?d, THEN mp, OF h]
  note t2 = invalid_table_reports_unrecognized_headers
    [of ucd_part "mk_suite [] []" "other_table (ascii ''Keywords'') 3 []", THEN mp, OF h]
  note t3 = invalid_table_reports_unrecognized_headers
    [of ucd_part "mk_suite [] []" "other_table (ascii ''Configuration'') 3 []", THEN mp, OF h]
  note t4 = invalid_table_reports_unrecognized_headers
    [of ucd_part "mk_suite [] []" "other_table ([0x212A] @ ascii ''eywords'') 3 []", THEN mp, OF h]
  from t1 [THEN conjunct1] r
  have e1: "InvalidTable_apply ucd_part ?d [] =
     ([\<lparr>severity = WARNING,
      message = ascii ''Unknown table name '' @ [39] @ ascii ''Configuration'' @ [39],
      linenumber = 4\<rparr>,
     \<lparr>severity = WARNING,
      message = ascii ''Unknown table name '' @ [39] @ ascii ''Comments'' @ [39],
      linenumber = 12\<rparr>,
     \<lparr>severity = WARNING,
      message = ascii ''Unknown table name '' @ [39] @ ascii ''Test  Cases'' @ [39],
      linenumber = 18\<rparr>,
     \<lparr>severity = WARNING,
      message = ascii ''Unknown table name '' @ [39] @ ascii ''Metadata'' @ [10, 10] @ [39],
      linenumber = 24\<rparr>], None)"
    by (rule trans)
  from t2 k have e2: "InvalidTable_apply
       ucd_part (mk_suite [] [] \<lparr>suite_tables := [other_table (ascii ''Keywords'') 3 []]\<rparr>) [] = ([], None)"
    by blast
  from t3 c have "InvalidTable_apply
       ucd_part (mk_suite [] [] \<lparr>suite_tables := [other_table (ascii ''Configuration'') 3 []]\<rparr>) [] =
     ([\<lparr>severity = WARNING,
        message = ascii ''Unknown table name '' @ [39] @ ascii ''Configuration'' @ [39],
        linenumber = table_linenumber (other_table (ascii ''Configuration'') 3 [])\<rparr>], None)"
    by blast
  then have e3: "InvalidTable_apply
       ucd_part (mk_suite [] [] \<lparr>suite_tables := [other_table (ascii ''Configuration'') 3 []]\<rparr>) [] =
     ([\<lparr>severity = WARNING,
        message = ascii ''Unknown table name '' @ [39] @ ascii ''Configuration'' @ [39],
        linenumber = 3\<rparr>], None)"
    by (simp only: l)
  from t4 n have e4: "InvalidTable_apply
       ucd_part (mk_suite [] [] \<lparr>suite_tables := [other_table ([0x212A] @ ascii ''eywords'') 3 []]\<rparr>) [] =
     ([], None)"
    by blast
  from h e1 k e2 c e3 n e4 show ?thesis by (intro conjI)
qed

text \<open>
  The claim as first stated fails for a header that ends in a newline: "Settings" followed
  by a newline is none of the recognized forms, in whatever letter case, and lowercased it is
  still none of them, yet the rule reports nothing for it. It fails as well for "Settings"
  written with the dotless i U+0131, which \<^verbatim>\<open>str.lower()\<close> leaves as it is: the
  lowercased header is none of the forms, yet the expression accepts it.
\<close>

theorem invalid_table_trailing_newline_counterexample:
  "\<not> lowers_to_form ucd_part (ascii ''Settings'' @ [10])
   \<and> ascii ''Settings'' @ [10] \<notin> set table_header_forms
   \<and> InvalidTable_apply ucd_part (mk_suite [other_table (ascii ''Settings'' @ [10]) 1 []] []) [] =
       ([], None)
   \<and> \<not> lowers_to_form ucd_part (ascii ''Sett'' @ [0x131] @ ascii ''ngs'')
   \<and> InvalidTable_apply
       ucd_part (mk_suite [other_table (ascii ''Sett'' @ [0x131] @ ascii ''ngs'') 1 []] []) [] =
       ([], None)"
  by code_simp

text \<open>
  C6, as amended: for every document in which each settings-table row has at least one cell
  and each settings-table row whose first cell is "Resource" has at least two cells, the
  no-parent-relative-import rule raises nothing and reports, in source order, one finding
  for each settings-table row whose first cell equals "Resource" (compared case-sensitively)
  and whose second cell contains the substring "${CURDIR}", anchored at that row's line
  number, and nothing else; so a row whose first cell differs from "Resource", even by case
  only, never produces a finding.
\<close>

theorem curdir_rule_reports_resource_rows:
  "rows_indexable d \<longrightarrow>
   RequirdNoCurdirInImporting_apply d [] =
     (map (\<lambda>r. \<lparr>severity = ERROR, message = ascii ''Don'' @ [39] @ ascii ''t use ${CURDIR}'',
                 linenumber = row_linenumber r\<rparr>)
        (filter resource_curdir_row (setting_rows d)),
      None)"
  by (simp add: RequirdNoCurdirInImporting_apply_def rows_indexable_def setting_rows_def
        setting_tables_def curdir_tables_ok curdir_message_def)

theorem curdir_rule_reports_resource_rows_witness:
  "rows_indexable
     (mk_suite [settings_table 1
                  [mk_row 2 [''Resource'', ''${CURDIR}/../common.robot''],
                   mk_row 3 [''resource'', ''${CURDIR}/lower.robot''],
                   mk_row 4 [''Resource'', ''./local.robot''],
                   mk_row 5 [''Library''],
                   mk_row 6 [''Resource'', ''x/${CURDIR}'', ''extra'']],
                other_table (ascii ''Keywords'') 8 [mk_row 9 [''Resource'', ''${CURDIR}/kw.robot'']]] [])
   \<and> RequirdNoCurdirInImporting_apply
     (mk_suite [settings_table 1
                  [mk_row 2 [''Resource'', ''${CURDIR}/../common.robot''],
                   mk_row 3 [''resource'', ''${CURDIR}/lower.robot''],
                   mk_row 4 [''Resource'', ''./local.robot''],
                   mk_row 5 [''Library''],
                   mk_row 6 [''Resource'', ''x/${CURDIR}'', ''extra'']],
                other_table (ascii ''Keywords'') 8 [mk_row 9 [''Resource'', ''${CURDIR}/kw.robot'']]] []) [] =
   ([\<lparr>severity = ERROR, message = ascii ''Don'' @ [39] @ ascii ''t use ${CURDIR}'', linenumber = 2\<rparr>,
     \<lparr>severity = ERROR, message = ascii ''Don'' @ [39] @ ascii ''t use ${CURDIR}'', linenumber = 6\<rparr>],
    None)"
proof -
  let ?d = "mk_suite [settings_table 1
                  [mk_row 2 [''Resource'', ''${CURDIR}/../common.robot''],
                   mk_row 3 [''resource'', ''${CURDIR}/lower.robot''],
                   mk_row 4 [''Resource'', ''./local.robot''],
                   mk_row 5 [''Library''],
                   mk_row 6 [''Resource'', ''x/${CURDIR}'', ''extra'']],
                other_table (ascii ''Keywords'') 8 [mk_row 9 [''Resource'', ''${CURDIR}/kw.robot'']]] []"
  have h: "rows_indexable ?d" by code_simp
  have r: "(map (\<lambda>r. \<lparr>severity = ERROR, message = ascii ''Don'' @ [39] @ ascii ''t use ${CURDIR}'',
                 linenumber = row_linenumber r\<rparr>)
        (filter resource_curdir_row (setting_rows ?d)), None :: error option) =
     ([\<lparr>severity = ERROR, message = ascii ''Don'' @ [39] @ ascii ''t use ${CURDIR}'', linenumber = 2\<rparr>,
       \<lparr>severity = ERROR, message = ascii ''Don'' @ [39] @ ascii ''t use ${CURDIR}'', linenumber = 6\<rparr>],
      None)"
    by code_simp
  from curdir_rule_reports_resource_rows [of ?d] h
  have "RequirdNoCurdirInImporting_apply ?d [] =
     (map (\<lambda>r. \<lparr>severity = ERROR, message = ascii ''Don'' @ [39] @ ascii ''t use ${CURDIR}'',
                 linenumber = row_linenumber r\<rparr>)
        (filter resource_curdir_row (setting_rows ?d)), None)"
    by (rule mp)
  from this r have "RequirdNoCurdirInImporting_apply ?d [] =
     ([\<lparr>severity = ERROR, message = ascii ''Don'' @ [39] @ ascii ''t use ${CURDIR}'', linenumber = 2\<rparr>,
       \<lparr>severity = ERROR, message = ascii ''Don'' @ [39] @ ascii ''t use ${CURDIR}'', linenumber = 6\<rparr>],
      None)"
    by (rule trans)
  with h show ?thesis by (intro conjI)
qed

text \<open>
  The claim as first stated (for every document) fails where a "Resource" row has no second
  cell: indexing it raises, the rule stops, and the "Resource" row on line 3, whose second
  cell contains "${CURDIR}", gets no finding.
\<close>

theorem curdir_rule_short_row_counterexample:
  "resource_curdir_row (mk_row 3 [''Resource'', ''${CURDIR}/../common.robot''])
   \<and> RequirdNoCurdirInImporting_apply
       (mk_suite [settings_table 1
                    [mk_row 2 [''Resource''],
                     mk_row 3 [''Resource'', ''${CURDIR}/../common.robot'']]] []) [] =
     ([], Some IndexError)"
  by code_simp

text \<open>
  C7, as amended: for every string \<open>x\<close>, \<open>normalize_name x\<close> is what \<^verbatim>\<open>str.lower()\<close>
  makes of \<open>x\<close> with every space and every underscore removed, and nothing else is changed.
  For an ASCII string that is \<open>x\<close> without its spaces and underscores and with each of the
  letters A to Z replaced by the small letter. Two strings that differ only by spaces and
  underscores (inserted, dropped or exchanged) and by the case of ASCII letters, every other
  character being the same in both, normalize to the same key; in particular "Smoke Test",
  "smoke_test" and "SmokeTest" do. The statements about ASCII letters use what the character
  database says about ASCII.
\<close>

theorem normalize_name_removes_separators_and_lowers:
  "normalize_name U x = str_lower U (filter (\<lambda>c. c \<noteq> 32 \<and> c \<noteq> 95) x)
   \<and> (ascii_case_data U \<and> list_all (\<lambda>c. c < 128) x \<longrightarrow>
        normalize_name U x = map ascii_lower (filter (\<lambda>c. c \<noteq> 32 \<and> c \<noteq> 95) x))
   \<and> (ascii_case_data U \<and> sep_variant ascii_case_pair x y \<longrightarrow>
        normalize_name U x = normalize_name U y)
   \<and> (ascii_case_data U \<longrightarrow>
        normalize_name U (ascii ''Smoke Test'') = ascii ''smoketest'' \<and>
        normalize_name U (ascii ''smoke_test'') = ascii ''smoketest'' \<and>
        normalize_name U (ascii ''SmokeTest'') = ascii ''smoketest'' \<and>
        normalize_name U (ascii ''The Quick_Brown FOX, JumpZ 42 times!'') =
          ascii ''thequickbrownfox,jumpz42times!'')"
proof -
  have f: "(\<lambda>c. c \<noteq> 32 \<and> c \<noteq> (95::nat)) = (\<lambda>c. \<not> is_sep c)"
    by (simp add: is_sep_def fun_eq_iff)
  have a: "normalize_name U x = str_lower U (filter (\<lambda>c. c \<noteq> 32 \<and> c \<noteq> 95) x)"
    unfolding f by (rule normalize_name_filter)
  have b: "normalize_name U x = map ascii_lower (filter (\<lambda>c. c \<noteq> 32 \<and> c \<noteq> 95) x)"
    if "ascii_case_data U \<and> list_all (\<lambda>c. c < 128) x"
    unfolding f using that by (simp add: normalize_name_ascii)
  have c: "normalize_name U x = normalize_name U y"
    if h: "ascii_case_data U \<and> sep_variant ascii_case_pair x y"
  proof -
    from h have "sep_variant (case_pair U) x y"
      by (auto intro: sep_variant_mono ascii_case_pair_case_pair)
    then show ?thesis by (rule sep_variant_normalize)
  qed
  have d: "normalize_name U (ascii ''Smoke Test'') = ascii ''smoketest'' \<and>
        normalize_name U (ascii ''smoke_test'') = ascii ''smoketest'' \<and>
        normalize_name U (ascii ''SmokeTest'') = ascii ''smoketest'' \<and>
        normalize_name U (ascii ''The Quick_Brown FOX, JumpZ 42 times!'') =
          ascii ''thequickbrownfox,jumpz42times!''" if h: "ascii_case_data U"
  proof -
    have l: "list_all (\<lambda>c. c < 128) (ascii ''Smoke Test'')"
      "list_all (\<lambda>c. c < 128) (ascii ''smoke_test'')"
      "list_all (\<lambda>c. c < 128) (ascii ''SmokeTest'')"
      "list_all (\<lambda>c. c < 128) (ascii ''The Quick_Brown FOX, JumpZ 42 times!'')"
      by code_simp+
    have m: "map ascii_lower (filter (\<lambda>c. \<not> is_sep c) (ascii ''Smoke Test'')) = ascii ''smoketest''"
      "map ascii_lower (filter (\<lambda>c. \<not> is_sep c) (ascii ''smoke_test'')) = ascii ''smoketest''"
      "map ascii_lower (filter (\<lambda>c. \<not> is_sep c) (ascii ''SmokeTest'')) = ascii ''smoketest''"
      "map ascii_lower (filter (\<lambda>c. \<not> is_sep c) (ascii ''The Quick_Brown FOX, JumpZ 42 times!'')) =
         ascii ''thequickbrownfox,jumpz42times!''"
      by code_simp+
    have "normalize_name U (ascii ''Smoke Test'') = ascii ''smoketest''"
      using normalize_name_ascii [OF h l(1)] m(1) by (rule trans)
    moreover have "normalize_name U (ascii ''smoke_test'') = ascii ''smoketest''"
      using normalize_name_ascii [OF h l(2)] m(2) by (rule trans)
    moreover have "normalize_name U (ascii ''SmokeTest'') = ascii ''smoketest''"
      using normalize_name_ascii [OF h l(3)] m(3) by (rule trans)
    moreover have "normalize_name U (ascii ''The Quick_Brown FOX, JumpZ 42 times!'') =
          ascii ''thequickbrownfox,jumpz42times!''"
      using normalize_name_ascii [OF h l(4)] m(4) by (rule trans)
    ultimately show ?thesis by (intro conjI)
  qed
  from a b c d show ?thesis by blast
qed

theorem normalize_name_removes_separators_and_lowers_witness:
  "ascii_case_data ucd_part
   \<and> list_all (\<lambda>c. c < 128) (ascii ''Log_To Console'')
   \<and> normalize_name ucd_part (ascii ''Log_To Console'') = ascii ''logtoconsole''
   \<and> sep_variant ascii_case_pair (ascii ''Smoke Test'') (ascii ''smoke_test'')
   \<and> normalize_name ucd_part (ascii ''Smoke Test'') = normalize_name ucd_part (ascii ''smoke_test'')
   \<and> sep_variant ascii_case_pair ([0x3B1, 0x3A3] @ ascii '' Check'') ([0x3B1, 0x3A3] @ ascii ''_check'')
   \<and> normalize_name ucd_part ([0x3B1, 0x3A3] @ ascii '' Check'') =
       normalize_name ucd_part ([0x3B1, 0x3A3] @ ascii ''_check'')
   \<and> normalize_name ucd_part (ascii ''SmokeTest'') = ascii ''smoketest''"
proof -
  have h: "ascii_case_data ucd_part"
    by (rule ucd_part_ascii_case_data)
  have l: "list_all (\<lambda>c. c < 128) (ascii ''Log_To Console'')"
    by code_simp
  have m: "map ascii_lower (filter (\<lambda>c. c \<noteq> 32 \<and> c \<noteq> 95) (ascii ''Log_To Console'')) =
      ascii ''logtoconsole''"
    by code_simp
  have v: "sep_variant ascii_case_pair (ascii ''Smoke Test'') (ascii ''smoke_test'')"
    unfolding sep_variant_iff by code_simp
  have w: "sep_variant ascii_case_pair ([0x3B1, 0x3A3] @ ascii '' Check'') ([0x3B1, 0x3A3] @ ascii ''_check'')"
    unfolding sep_variant_iff by code_simp
  note t = normalize_name_removes_separators_and_lowers
    [of ucd_part "ascii ''Log_To Console''" "ascii ''Log_To Console''"]
  note u = normalize_name_removes_separators_and_lowers
    [of ucd_part "ascii ''Smoke Test''" "ascii ''smoke_test''"]
  note s = normalize_name_removes_separators_and_lowers
    [of ucd_part "[0x3B1, 0x3A3] @ ascii '' Check''" "[0x3B1, 0x3A3] @ ascii ''_check''"]
  from t h l have "normalize_name ucd_part (ascii ''Log_To Console'') =
      map ascii_lower (filter (\<lambda>c. c \<noteq> 32 \<and> c \<noteq> 95) (ascii ''Log_To Console''))"
    by blast
  then have a: "normalize_name ucd_part (ascii ''Log_To Console'') = ascii ''logtoconsole''"
    using m by (rule trans)
  from u h v have b: "normalize_name ucd_part (ascii ''Smoke Test'') =
      normalize_name ucd_part (ascii ''smoke_test'')"
    by blast
  from s h w have c: "normalize_name ucd_part ([0x3B1, 0x3A3] @ ascii '' Check'') =
       normalize_name ucd_part ([0x3B1, 0x3A3] @ ascii ''_check'')"
    by blast
  from t h have d: "normalize_name ucd_part (ascii ''SmokeTest'') = ascii ''smoketest''"
    by blast
  from h l a v b w c d show ?thesis by (intro conjI)
qed

text \<open>
  The claim as first stated fails outside ASCII, because \<^verbatim>\<open>str.lower()\<close> does not
  lowercase character by character. The capital sigma becomes the final sigma U+03C2 after a
  letter at the end of a word: the Greek name of the two capitals alpha, sigma and the name of
  the two small letters alpha, sigma differ only by letter case (the second is the first with
  each character replaced by its lowercase), yet the first normalizes to alpha, final sigma
  and the second to itself, so the two keys differ. And the capital I with dot above U+0130
  becomes two characters, i and the combining dot U+0307.
\<close>

theorem normalize_name_final_sigma_counterexample:
  "map (tolower ucd_part) [0x391, 0x3A3] = [0x3B1, 0x3C3]
   \<and> concat (map (lower_full ucd_part) [0x391, 0x3A3]) = [0x3B1, 0x3C3]
   \<and> normalize_name ucd_part [0x391, 0x3A3] = [0x3B1, 0x3C2]
   \<and> normalize_name ucd_part [0x3B1, 0x3C3] = [0x3B1, 0x3C3]
   \<and> normalize_name ucd_part [0x391, 0x3A3] \<noteq> normalize_name ucd_part [0x3B1, 0x3C3]
   \<and> normalize_name ucd_part [0x130] = [0x69, 0x307]"
  by code_simp

text \<open>
  C8: running the full rule set twice on the same unchanged document yields identical
  violation sequences. Every rule's \<^verbatim>\<open>apply\<close> is a function of the document (and of
  the rule's own attributes, which no \<^verbatim>\<open>apply\<close> changes) alone: what it appends to
  the findings, and whether it raises, do not depend on what was collected before the call,
  since every seen-list and flag starts afresh in each call. So a run of any list of rules
  appends the same findings and faults whatever the state it starts from, and a second run
  of the full rule set, started where the first ended, appends exactly what the first run
  produced.
\<close>

theorem rule_set_runs_are_repeatable:
  "rule_apply U r d rep = (rep @ fst (rule_apply U r d []), snd (rule_apply U r d []))
   \<and> run_rules U rs d (rep, faults) =
       (rep @ fst (run_rules U rs d ([], [])), faults @ snd (run_rules U rs d ([], [])))
   \<and> run_rules U (suite_rules max_allowed) d (run_rules U (suite_rules max_allowed) d ([], [])) =
       (fst (run_rules U (suite_rules max_allowed) d ([], [])) @
          fst (run_rules U (suite_rules max_allowed) d ([], [])),
        snd (run_rules U (suite_rules max_allowed) d ([], [])) @
          snd (run_rules U (suite_rules max_allowed) d ([], [])))"
proof -
  have a: "rule_apply U r d rep = (rep @ fst (rule_apply U r d []), snd (rule_apply U r d []))"
    by (rule rule_apply_frame)
  have b: "run_rules U rs d (rep, faults) =
       (rep @ fst (run_rules U rs d ([], [])), faults @ snd (run_rules U rs d ([], [])))"
    by (rule run_rules_frame)
  obtain v f where vf: "run_rules U (suite_rules max_allowed) d ([], []) = (v, f)"
    by (cases "run_rules U (suite_rules max_allowed) d ([], [])")
  have "run_rules U (suite_rules max_allowed) d (v, f) = (v @ v, f @ f)"
    using run_rules_frame [of U "suite_rules max_allowed" d v f] vf by simp
  then have c: "run_rules U (suite_rules max_allowed) d (run_rules U (suite_rules max_allowed) d ([], [])) =
       (fst (run_rules U (suite_rules max_allowed) d ([], [])) @
          fst (run_rules U (suite_rules max_allowed) d ([], [])),
        snd (run_rules U (suite_rules max_allowed) d ([], [])) @
          snd (run_rules U (suite_rules max_allowed) d ([], [])))"
    by (simp add: vf)
  from a b c show ?thesis by (intro conjI)
qed

theorem rule_set_runs_are_repeatable_witness:
  "run_rules ucd_part (suite_rules 10) example_suite ([], []) =
     (example_findings, [(RequirdNoCurdirInImporting, IndexError)])
   \<and> run_rules ucd_part (suite_rules 10) example_suite
       (example_findings, [(RequirdNoCurdirInImporting, IndexError)]) =
     (example_findings @ example_findings,
      [(RequirdNoCurdirInImporting, IndexError), (RequirdNoCurdirInImporting, IndexError)])"
proof -
  have r: "run_rules ucd_part (suite_rules 10) example_suite ([], []) =
     (example_findings, [(RequirdNoCurdirInImporting, IndexError)])"
    by code_simp
  note t = rule_set_runs_are_repeatable
    [of ucd_part RequiredAutherInfo example_suite "[]" "suite_rules 10" "[]" 10]
  from t [THEN conjunct2, THEN conjunct2]
  have "run_rules ucd_part (suite_rules 10) example_suite
       (example_findings, [(RequirdNoCurdirInImporting, IndexError)]) =
     (example_findings @ example_findings,
      [(RequirdNoCurdirInImporting, IndexError), (RequirdNoCurdirInImporting, IndexError)])"
    by (simp add: r)
  with r show ?thesis by (intro conjI)
qed

text \<open>
  C9: the rules index rows without bounds guards. For every document in which each
  settings-table row has at least one cell and each settings-table row whose first cell is
  "Resource" has at least two cells, no row access raises: the no-parent-relative-import rule
  and the suite-documentation rule end without an exception, the scan for a test template
  of the too-many-test-cases rule does not raise, and so that rule ends without an exception
  for every non-negative \<open>max_allowed\<close>. For every document with a settings-table row that
  is the single cell "Resource", the no-parent-relative-import rule ends in
  \<^verbatim>\<open>IndexError\<close>.
\<close>

theorem row_indexing_raises_only_on_short_rows:
  "(rows_indexable d \<longrightarrow>
      snd (RequirdNoCurdirInImporting_apply d rep) = None
      \<and> snd (RequireSuiteDocumentation_apply U d rep) = None
      \<and> (template_tables U (suite_tables d) = Next \<or> template_tables U (suite_tables d) = Return)
      \<and> (0 \<le> max_allowed \<longrightarrow> snd (TooManyTestCases_apply U max_allowed d rep) = None))
   \<and> ((\<exists>r \<in> set (setting_rows d). cells r = [ascii ''Resource'']) \<longrightarrow>
        snd (RequirdNoCurdirInImporting_apply d rep) = Some IndexError)"
proof -
  have a: "snd (RequirdNoCurdirInImporting_apply d rep) = None" if "rows_indexable d"
    using that
    by (simp add: RequirdNoCurdirInImporting_apply_def rows_indexable_def setting_rows_def
          setting_tables_def curdir_tables_ok)
  have ne: "list_all (\<lambda>r. cells r \<noteq> []) (concat (map rows (filter isinstance_SettingTable (suite_tables d))))"
    if "rows_indexable d"
    using rows_indexable_nonempty [OF that]
    by (simp add: rows_nonempty_def setting_rows_def setting_tables_def)
  have b: "snd (RequireSuiteDocumentation_apply U d rep) = None" if "rows_indexable d"
    by (simp add: RequireSuiteDocumentation_apply_def documentation_tables_char [OF ne [OF that]])
  have c: "template_tables U (suite_tables d) = Next \<or> template_tables U (suite_tables d) = Return"
    if "rows_indexable d"
    by (simp add: template_tables_char [OF ne [OF that]])
  have e: "snd (TooManyTestCases_apply U max_allowed d rep) = None"
    if "rows_indexable d" "0 \<le> max_allowed"
    using that(2)
    by (simp add: TooManyTestCases_apply_def template_tables_char [OF ne [OF that(1)]]
          Let_def list_get_nonneg)
  have f: "snd (RequirdNoCurdirInImporting_apply d rep) = Some IndexError"
    if "\<exists>r \<in> set (setting_rows d). cells r = [ascii ''Resource'']"
  proof -
    from that obtain r where "r \<in> set (setting_rows d)" "\<not> row_indexable r"
      by (auto simp: row_indexable_def)
    then have "\<not> list_all row_indexable (concat (map rows (filter isinstance_SettingTable (suite_tables d))))"
      by (auto simp: setting_rows_def setting_tables_def list_all_iff)
    then show ?thesis
      by (simp add: RequirdNoCurdirInImporting_apply_def curdir_tables_bad)
  qed
  from a b c e f show ?thesis by blast
qed

theorem row_indexing_raises_only_on_short_rows_witness:
  "rows_indexable
     (mk_suite [settings_table 1 [mk_row 2 [''Library'', ''Collections''],
                                  mk_row 3 [''Resource'', ''common.robot'']]] [])
   \<and> snd (RequirdNoCurdirInImporting_apply
       (mk_suite [settings_table 1 [mk_row 2 [''Library'', ''Collections''],
                                    mk_row 3 [''Resource'', ''common.robot'']]] []) []) = None
   \<and> snd (RequireSuiteDocumentation_apply
       ucd_part (mk_suite [settings_table 1 [mk_row 2 [''Library'', ''Collections''],
                                    mk_row 3 [''Resource'', ''common.robot'']]] []) []) = None
   \<and> snd (TooManyTestCases_apply ucd_part 10
       (mk_suite [settings_table 1 [mk_row 2 [''Library'', ''Collections''],
                                    mk_row 3 [''Resource'', ''common.robot'']]] []) []) = None
   \<and> (\<exists>r \<in> set (setting_rows (mk_suite [settings_table 1 [mk_row 2 [''Resource'']]] [])).
         cells r = [ascii ''Resource''])
   \<and> snd (RequirdNoCurdirInImporting_apply
       (mk_suite [settings_table 1 [mk_row 2 [''Resource'']]] []) []) = Some IndexError"
proof -
  let ?d = "mk_suite [settings_table 1 [mk_row 2 [''Library'', ''Collections''],
                                    mk_row 3 [''Resource'', ''common.robot'']]] []"
  let ?e = "mk_suite [settings_table 1 [mk_row 2 [''Resource'']]] []"
  have h: "rows_indexable ?d" by code_simp
  have m: "(0::int) \<le> 10" by simp
  have g: "\<exists>r \<in> set (setting_rows ?e). cells r = [ascii ''Resource'']" by code_simp
  note t = row_indexing_raises_only_on_short_rows [of ?d "[]" ucd_part 10]
  note u = row_indexing_raises_only_on_short_rows [of ?e "[]" ucd_part 10]
  from t h have 1: "snd (RequirdNoCurdirInImporting_apply ?d []) = None" by blast
  from t h have 2: "snd (RequireSuiteDocumentation_apply ucd_part ?d []) = None" by blast
  from t h m have 3: "snd (TooManyTestCases_apply ucd_part 10 ?d []) = None" by blast
  from u g have 4: "snd (RequirdNoCurdirInImporting_apply ?e []) = Some IndexError" by blast
  from h 1 2 3 g 4 show ?thesis by (intro conjI)
qed

text \<open>
  C10: the author/contact rule resets its two flags for each settings table and reports
  after each of them. A document without settings tables gets no finding. In general the
  number of "Author name is needed" findings is the number of settings tables none of whose
  cells contains an author-indicating token, the number of "Contact list is needed" findings
  is the number of settings tables none of whose cells contains a contact-indicating token,
  there is no other finding, and every finding is anchored at line 1.
\<close>

theorem author_rule_counts_per_settings_table:
  "(setting_tables d = [] \<longrightarrow> RequiredAutherInfo_apply U d [] = ([], None))
   \<and> length (filter (\<lambda>v. message v = ascii ''Author name is needed'') (fst (RequiredAutherInfo_apply U d []))) =
       length (filter (\<lambda>t. \<not> mentions U author_tokens t) (setting_tables d))
   \<and> length (filter (\<lambda>v. message v = ascii ''Contact list is needed'') (fst (RequiredAutherInfo_apply U d []))) =
       length (filter (\<lambda>t. \<not> mentions U contact_tokens t) (setting_tables d))
   \<and> (\<forall>v \<in> set (fst (RequiredAutherInfo_apply U d [])).
         linenumber v = 1 \<and> severity v = ERROR \<and>
         (message v = ascii ''Author name is needed'' \<or> message v = ascii ''Contact list is needed''))
   \<and> snd (RequiredAutherInfo_apply U d []) = None"
proof -
  have none: "setting_tables d = [] \<longrightarrow> RequiredAutherInfo_apply U d [] = ([], None)"
    by (simp add: RequiredAutherInfo_apply_def author_tables_char setting_tables_def)
  have a: "length (filter (\<lambda>v. message v = ascii ''Author name is needed'') (fst (RequiredAutherInfo_apply U d []))) =
       length (filter (\<lambda>t. \<not> mentions U author_tokens t) (setting_tables d))"
    by (simp add: RequiredAutherInfo_apply_def author_tables_count_author setting_tables_def)
  have c: "length (filter (\<lambda>v. message v = ascii ''Contact list is needed'') (fst (RequiredAutherInfo_apply U d []))) =
       length (filter (\<lambda>t. \<not> mentions U contact_tokens t) (setting_tables d))"
    by (simp add: RequiredAutherInfo_apply_def author_tables_count_contact setting_tables_def)
  have m: "\<forall>v \<in> set (fst (RequiredAutherInfo_apply U d [])).
         linenumber v = 1 \<and> severity v = ERROR \<and>
         (message v = ascii ''Author name is needed'' \<or> message v = ascii ''Contact list is needed'')"
    using author_tables_members [of U "suite_tables d"]
    by (auto simp: RequiredAutherInfo_apply_def author_missing_def contact_missing_def)
  have s: "snd (RequiredAutherInfo_apply U d []) = None"
    by (simp add: RequiredAutherInfo_apply_def)
  from none a c m s show ?thesis by (intro conjI)
qed

theorem author_rule_counts_per_settings_table_witness:
  "setting_tables (mk_suite [other_table (ascii ''Keywords'') 1 [mk_row 2 [''My Keyword'']]] []) = []
   \<and> RequiredAutherInfo_apply ucd_part (mk_suite [other_table (ascii ''Keywords'') 1 [mk_row 2 [''My Keyword'']]] []) [] = ([], None)
   \<and> length (filter (\<lambda>v. message v = ascii ''Author name is needed'')
        (fst (RequiredAutherInfo_apply
           ucd_part (mk_suite [settings_table 1 [mk_row 2 [''Documentation'', ''Modified by Jane'']],
                      other_table (ascii ''Keywords'') 4 [mk_row 5 [''No author here'']],
                      settings_table 7 [mk_row 8 [''Library'', ''String'']],
                      settings_table 10 [mk_row 11 [''Metadata'', ''E-Mail'', ''a@b.c'']]] []) []))) = 2
   \<and> length (filter (\<lambda>v. message v = ascii ''Contact list is needed'')
        (fst (RequiredAutherInfo_apply
           ucd_part (mk_suite [settings_table 1 [mk_row 2 [''Documentation'', ''Modified by Jane'']],
                      other_table (ascii ''Keywords'') 4 [mk_row 5 [''No author here'']],
                      settings_table 7 [mk_row 8 [''Library'', ''String'']],
                      settings_table 10 [mk_row 11 [''Metadata'', ''E-Mail'', ''a@b.c'']]] []) []))) = 2"
proof -
  let ?e = "mk_suite [other_table (ascii ''Keywords'') 1 [mk_row 2 [''My Keyword'']]] []"
  let ?d = "mk_suite [settings_table 1 [mk_row 2 [''Documentation'', ''Modified by Jane'']],
                      other_table (ascii ''Keywords'') 4 [mk_row 5 [''No author here'']],
                      settings_table 7 [mk_row 8 [''Library'', ''String'']],
                      settings_table 10 [mk_row 11 [''Metadata'', ''E-Mail'', ''a@b.c'']]] []"
  have h: "setting_tables ?e = []" by code_simp
  have na: "length (filter (\<lambda>t. \<not> mentions ucd_part author_tokens t) (setting_tables ?d)) = 2" by code_simp
  have nc: "length (filter (\<lambda>t. \<not> mentions ucd_part contact_tokens t) (setting_tables ?d)) = 2" by code_simp
  note t0 = author_rule_counts_per_settings_table [of ?e ucd_part]
  note t = author_rule_counts_per_settings_table [of ?d ucd_part]
  from t0 h have e0: "RequiredAutherInfo_apply ucd_part ?e [] = ([], None)" by blast
  from t [THEN conjunct2, THEN conjunct1] na
  have ea: "length (filter (\<lambda>v. message v = ascii ''Author name is needed'')
        (fst (RequiredAutherInfo_apply ucd_part ?d []))) = 2" by (rule trans)
  from t [THEN conjunct2, THEN conjunct2, THEN conjunct1] nc
  have ec: "length (filter (\<lambda>v. message v = ascii ''Contact list is needed'')
        (fst (RequiredAutherInfo_apply ucd_part ?d []))) = 2" by (rule trans)
  from h e0 ea ec show ?thesis by (intro conjI)
qed

end
